theory Spec2Isabelle
  imports Main "HOL-Library.AList"
begin

section \<open>Strings\<close>

text \<open>
  A JavaScript string is a sequence of UTF-16 code units, and \<open>length\<close>,
  \<open>substring\<close>, \<open>split\<close> and \<open>replace\<close> all work on code units. The model keeps
  the code units below 256, one per \<^typ>\<open>char\<close>: this covers every literal of the source,
  including the letter E with acute accent (code unit 0xC9) of the title marker.
  An exported document is written out as UTF-8 (the Blob of \<open>createIcsDownloadUrl\<close> and
  \<open>downloadIcsFile\<close>), where a code unit below 0x80 is one octet and one from 0x80 to
  0xFF is two.
\<close>

definition utf8_octets :: "string \<Rightarrow> nat" where
  "utf8_octets s = sum_list (map (\<lambda>c. if (of_char c :: nat) < 128 then 1 else 2) s)"

definition CRLF :: string where
  "CRLF = [CHR 0x0D, CHR 0x0A]"

text \<open>\<open>Array.prototype.join\<close> on an array of strings.\<close>

fun js_join :: "string \<Rightarrow> string list \<Rightarrow> string" where
  "js_join sep [] = []"
| "js_join sep [x] = x"
| "js_join sep (x # y # ys) = x @ sep @ js_join sep (y # ys)"

text \<open>\<open>String.prototype.split\<close> with a separator of one code unit: the result is never
  empty, and the empty string gives one empty piece.\<close>

fun split_on :: "char \<Rightarrow> string \<Rightarrow> string list" where
  "split_on c [] = [[]]"
| "split_on c (x # xs) =
     (if x = c then [] # split_on c xs
      else (case split_on c xs of
              [] \<Rightarrow> [[x]]
            | p # ps \<Rightarrow> (x # p) # ps))"

text \<open>Array destructuring and indexing: an index past the end reads \<open>undefined\<close>.\<close>

definition at_index :: "'a list \<Rightarrow> nat \<Rightarrow> 'a option" where
  "at_index xs i = (if i < length xs then Some (xs ! i) else None)"

text \<open>\<open>s.replace(/c/g, rep)\<close> for a pattern of one literal character.\<close>

definition replace_all :: "char \<Rightarrow> string \<Rightarrow> string \<Rightarrow> string" where
  "replace_all c rep s = concat (map (\<lambda>x. if x = c then rep else [x]) s)"

text \<open>White space (\<open>\s\<close> of a regular expression, and what \<open>trim\<close> removes), among the
  code units below 256: tab, line feed, vertical tab, form feed, carriage return, space
  and no-break space.\<close>

definition is_space :: "char \<Rightarrow> bool" where
  "is_space c = (c \<in> {CHR 0x09, CHR 0x0A, CHR 0x0B, CHR 0x0C, CHR 0x0D, CHR 0x20, CHR 0xA0})"

definition trim :: "string \<Rightarrow> string" where
  "trim s = rev (dropWhile is_space (rev (dropWhile is_space s)))"

text \<open>\<open>padStart(2, '0')\<close>.\<close>

definition padStart2 :: "string \<Rightarrow> string" where
  "padStart2 s = replicate (2 - length s) (CHR ''0'') @ s"

section \<open>Numbers\<close>

text \<open>
  The numbers of the modelled code are integers or \<open>NaN\<close>: a number is an
  \<^typ>\<open>int option\<close>, with \<open>None\<close> for \<open>NaN\<close>. Arithmetic is exact, as IEEE doubles are
  on the integers that time values and their differences range over.
\<close>

type_synonym number = "int option"

definition is_digit :: "char \<Rightarrow> bool" where
  "is_digit c = (48 \<le> (of_char c :: nat) \<and> (of_char c :: nat) \<le> 57)"

definition digits_value :: "string \<Rightarrow> int" where
  "digits_value s = foldl (\<lambda>acc c. 10 * acc + (int (of_char c) - 48)) 0 s"

text \<open>
  \<open>Number(s)\<close> on the strings of the authoritative date format: a run of decimal digits
  is its value and the empty string is 0. Every other string is mapped to \<open>NaN\<close>; this
  departs from ECMAScript on numerals with a sign, a fraction, an exponent, a radix
  prefix or surrounding white space, which the date format does not contain.
  \<open>Number(undefined)\<close> is \<open>NaN\<close>.
\<close>

definition Number :: "string option \<Rightarrow> number" where
  "Number v =
     (case v of
        None \<Rightarrow> None
      | Some s \<Rightarrow> if list_all is_digit s then Some (digits_value s) else None)"

text \<open>\<open>Number.prototype.toString\<close> (and the conversion inside a template literal) for
  the numbers of the model.\<close>

fun string_of_nat :: "nat \<Rightarrow> string" where
  "string_of_nat n =
     (if n < 10 then [char_of (48 + n)]
      else string_of_nat (n div 10) @ [char_of (48 + n mod 10)])"

declare string_of_nat.simps [simp del]

definition toString :: "number \<Rightarrow> string" where
  "toString v =
     (case v of
        None \<Rightarrow> ''NaN''
      | Some i \<Rightarrow> if i < 0 then CHR ''-'' # string_of_nat (nat (- i)) else string_of_nat (nat i))"

section \<open>Dates\<close>

text \<open>
  A \<open>Date\<close> holds a time value: the milliseconds since the epoch, or \<open>NaN\<close> for an
  invalid date. The host's time zone is a parameter: the offset of local time from UTC,
  in milliseconds, at a UTC instant and at a local time (ECMAScript's \<open>LocalTime\<close> and
  \<open>UTC\<close>). The calendar arithmetic is ECMAScript's \<open>MakeDay\<close>, \<open>MakeTime\<close>, \<open>MakeDate\<close>
  and \<open>TimeClip\<close> on the proleptic Gregorian calendar.
\<close>

datatype Date = MkDate (getTime: number)

record host =
  offset_at_utc :: "int \<Rightarrow> int"
  offset_at_local :: "int \<Rightarrow> int"

definition LocalTime :: "host \<Rightarrow> int \<Rightarrow> int" where
  "LocalTime h t = t + offset_at_utc h t"

definition UTC :: "host \<Rightarrow> int \<Rightarrow> int" where
  "UTC h t = t - offset_at_local h t"

definition fixed_offset :: "int \<Rightarrow> host" where
  "fixed_offset ms = \<lparr> offset_at_utc = (\<lambda>t. ms), offset_at_local = (\<lambda>t. ms) \<rparr>"

definition msPerDay :: int where
  "msPerDay = 86400000"

text \<open>The day number of the first day of month \<open>mn\<close> (0 to 11) of year \<open>y\<close>.\<close>

definition day_of_month_start :: "int \<Rightarrow> int \<Rightarrow> int" where
  "day_of_month_start y mn =
     (let y' = (if mn < 2 then y - 1 else y);
          era = y' div 400;
          yoe = y' mod 400;
          mp = (mn + 10) mod 12;
          doy = (153 * mp + 2) div 5;
          doe = yoe * 365 + yoe div 4 - yoe div 100 + doy
      in era * 146097 + doe - 719468)"

definition MakeDay :: "int \<Rightarrow> int \<Rightarrow> int \<Rightarrow> int" where
  "MakeDay year month date =
     (let ym = year + month div 12;
          mn = month mod 12
      in day_of_month_start ym mn + date - 1)"

definition MakeTime :: "int \<Rightarrow> int \<Rightarrow> int \<Rightarrow> int \<Rightarrow> int" where
  "MakeTime hour minute sec ms = hour * 3600000 + minute * 60000 + sec * 1000 + ms"

definition MakeDate :: "int \<Rightarrow> int \<Rightarrow> int" where
  "MakeDate day time = day * msPerDay + time"

definition TimeClip :: "int \<Rightarrow> number" where
  "TimeClip t = (if \<bar>t\<bar> > 8640000000000000 then None else Some t)"

text \<open>\<open>new Date(year, month, date, hours, minutes, seconds)\<close>: the components are read
  in local time, a year from 0 to 99 means 1900 plus that year, and a \<open>NaN\<close> component
  makes the date invalid.\<close>

definition new_Date :: "host \<Rightarrow> number \<Rightarrow> number \<Rightarrow> number \<Rightarrow> number \<Rightarrow> number \<Rightarrow> number \<Rightarrow> Date" where
  "new_Date h year month date hours minutes seconds =
     (case (year, month, date, hours, minutes, seconds) of
        (Some y, Some m, Some dt, Some hh, Some mi, Some s) \<Rightarrow>
          (let yr = (if 0 \<le> y \<and> y \<le> 99 then 1900 + y else y);
               finalDate = MakeDate (MakeDay yr m dt) (MakeTime hh mi s 0)
           in MkDate (TimeClip (UTC h finalDate)))
      | _ \<Rightarrow> MkDate None)"

text \<open>The calendar fields of a time value (ECMAScript's \<open>YearFromTime\<close>,
  \<open>MonthFromTime\<close>, \<open>DateFromTime\<close>, \<open>HourFromTime\<close>, \<open>MinFromTime\<close>, \<open>SecFromTime\<close>,
  \<open>msFromTime\<close>): year, month (0 to 11) and day of month of a day number first.\<close>

definition civil_of_day :: "int \<Rightarrow> int \<times> int \<times> int" where
  "civil_of_day z =
     (let z' = z + 719468;
          era = z' div 146097;
          doe = z' mod 146097;
          yoe = (doe - doe div 1460 + doe div 36524 - doe div 146096) div 365;
          doy = doe - (365 * yoe + yoe div 4 - yoe div 100);
          mp = (5 * doy + 2) div 153;
          d = doy - (153 * mp + 2) div 5 + 1;
          mn = (mp + 2) mod 12;
          y = yoe + era * 400 + (if mn < 2 then 1 else 0)
      in (y, mn, d))"

definition YearFromTime :: "int \<Rightarrow> int" where
  "YearFromTime t = fst (civil_of_day (t div msPerDay))"

definition MonthFromTime :: "int \<Rightarrow> int" where
  "MonthFromTime t = fst (snd (civil_of_day (t div msPerDay)))"

definition DateFromTime :: "int \<Rightarrow> int" where
  "DateFromTime t = snd (snd (civil_of_day (t div msPerDay)))"

definition HourFromTime :: "int \<Rightarrow> int" where
  "HourFromTime t = (t div 3600000) mod 24"

definition MinFromTime :: "int \<Rightarrow> int" where
  "MinFromTime t = (t div 60000) mod 60"

definition SecFromTime :: "int \<Rightarrow> int" where
  "SecFromTime t = (t div 1000) mod 60"

definition msFromTime :: "int \<Rightarrow> int" where
  "msFromTime t = t mod 1000"

text \<open>The errors the code can raise: the constructor that was thrown and its
  \<open>message\<close>. Every one is an instance of \<open>Error\<close>, which is what the \<open>catch\<close> blocks
  test before they read the message.\<close>

datatype js_error = Error string | TypeError string | RangeError string | SyntaxError string

fun message :: "js_error \<Rightarrow> string" where
  "message (Error m) = m"
| "message (TypeError m) = m"
| "message (RangeError m) = m"
| "message (SyntaxError m) = m"

text \<open>\<open>Date.prototype.toISOString\<close>: the UTC fields, a year outside 0 to 9999 written
  with a sign and six digits; a \<open>RangeError\<close> on an invalid date.\<close>

definition pad_digits :: "nat \<Rightarrow> int \<Rightarrow> string" where
  "pad_digits n v = (let s = string_of_nat (nat v) in replicate (n - length s) (CHR ''0'') @ s)"

definition toISOString :: "Date \<Rightarrow> js_error + string" where
  "toISOString d =
     (case getTime d of
        None \<Rightarrow> Inl (RangeError ''Invalid time value'')
      | Some t \<Rightarrow>
          (let y = YearFromTime t;
               ys = (if 0 \<le> y \<and> y \<le> 9999 then pad_digits 4 y
                     else (if y < 0 then ''-'' else ''+'') @ pad_digits 6 \<bar>y\<bar>)
           in Inr (ys @ ''-'' @ pad_digits 2 (MonthFromTime t + 1) @ ''-'' @
                   pad_digits 2 (DateFromTime t) @ ''T'' @ pad_digits 2 (HourFromTime t) @
                   '':'' @ pad_digits 2 (MinFromTime t) @ '':'' @
                   pad_digits 2 (SecFromTime t) @ ''.'' @ pad_digits 3 (msFromTime t) @
                   ''Z'')))"

section \<open>Date utilities\<close>

text \<open>\<open>parseEpitechDate\<close>: "YYYY-MM-DD HH:MM:SS", read as local time. On a string it
  never throws: a missing or non-numeric field gives an invalid date.\<close>

definition parseEpitechDate :: "host \<Rightarrow> string \<Rightarrow> Date" where
  "parseEpitechDate h dateStr =
     (let parts = split_on (CHR '' '') dateStr;
          datePart = at_index parts 0;
          timePart = at_index parts 1;
          ymd = map (\<lambda>x. Number (Some x))
                  (split_on (CHR ''-'') (case datePart of None \<Rightarrow> [] | Some dp \<Rightarrow> dp));
          year = at_index ymd 0; month = at_index ymd 1; day = at_index ymd 2;
          hms = map (\<lambda>x. Number (Some x))
                  (split_on (CHR '':'')
                     (case timePart of
                        None \<Rightarrow> ''00:00:00''
                      | Some tp \<Rightarrow> if tp = [] then ''00:00:00'' else tp));
          hours = at_index hms 0; minutes = at_index hms 1; seconds = at_index hms 2
      in new_Date h (Option.bind year id)
           (map_option (\<lambda>m. m - 1) (Option.bind month id))
           (Option.bind day id) (Option.bind hours id) (Option.bind minutes id)
           (Option.bind seconds id))"

text \<open>\<open>ensureDate\<close> on a \<open>Date\<close> instance, the only kind of value the modelled callers
  pass: an invalid date is rejected.\<close>

definition ensureDate :: "Date \<Rightarrow> js_error + Date" where
  "ensureDate v =
     (if getTime v = None then Inl (Error ''Invalid Date object: Invalid Date'')
      else Inr v)"

text \<open>\<open>toIcsDateTime\<close>: YYYYMMDDTHHMMSS from the local-time fields.\<close>

definition pad :: "int \<Rightarrow> string" where
  "pad n = padStart2 (toString (Some n))"

definition toIcsDateTime :: "host \<Rightarrow> Date \<Rightarrow> js_error + string" where
  "toIcsDateTime h date =
     (case ensureDate date of
        Inl e \<Rightarrow> Inl e
      | Inr d \<Rightarrow>
          (case getTime d of
             None \<Rightarrow> Inr (''NaN'' @ ''NaN'' @ ''NaN'' @ ''T'' @ ''NaN'' @ ''NaN'' @ ''NaN'')
           | Some t \<Rightarrow>
               (let lt = LocalTime h t
                in Inr (toString (Some (YearFromTime lt)) @ pad (MonthFromTime lt + 1) @
                        pad (DateFromTime lt) @ ''T'' @ pad (HourFromTime lt) @
                        pad (MinFromTime lt) @ pad (SecFromTime lt)))))"

definition getTimezoneVtimezone :: string where
  "getTimezoneVtimezone = js_join CRLF
     [''BEGIN:VTIMEZONE'',
      ''TZID:Europe/Paris'',
      ''BEGIN:DAYLIGHT'',
      ''TZOFFSETFROM:+0100'',
      ''TZOFFSETTO:+0200'',
      ''TZNAME:CEST'',
      ''DTSTART:19700329T020000'',
      ''RRULE:FREQ=YEARLY;BYMONTH=3;BYDAY=-1SU'',
      ''END:DAYLIGHT'',
      ''BEGIN:STANDARD'',
      ''TZOFFSETFROM:+0200'',
      ''TZOFFSETTO:+0100'',
      ''TZNAME:CET'',
      ''DTSTART:19701025T030000'',
      ''RRULE:FREQ=YEARLY;BYMONTH=10;BYDAY=-1SU'',
      ''END:STANDARD'',
      ''END:VTIMEZONE'']"

section \<open>Data model\<close>

text \<open>
  \<open>EpitechRawEvent\<close>, field by field. \<open>start\<close> and \<open>end\<close> are \<open>raw_start\<close> and
  \<open>raw_end\<close>, \<open>semester\<close>, \<open>registered\<close> and \<open>past\<close> carry the same prefix, and the
  fields of \<open>room\<close> and \<open>prof_inst\<close> carry the name of their object. A field that can be
  \<open>null\<close> is an option; \<open>event_registered\<close> (\<open>string | false\<close>) is \<open>None\<close> for
  \<open>false\<close>; \<open>is_rdv\<close> is a boolean, a string or (as the code also tests) a number.
\<close>

record room_info =
  room_code :: string
  room_type :: string
  room_seats :: int

record prof =
  prof_type :: string
  prof_login :: string
  prof_title :: string
  prof_picture :: string

datatype rdv_flag = RdvBool bool | RdvString string | RdvNumber int

record EpitechRawEvent =
  scolaryear :: string
  acti_title :: string
  raw_start :: string
  raw_end :: string
  room :: "room_info option"
  codemodule :: string
  codeinstance :: string
  codeacti :: string
  codeevent :: string
  raw_semester :: int
  instance_location :: string
  titlemodule :: string
  prof_inst :: "prof list option"
  raw_registered :: bool
  event_registered :: "string option"
  rdv_group_registered :: "string option"
  rdv_indiv_registered :: "string option"
  module_registered :: bool
  raw_past :: bool
  allow_register :: bool
  allow_token :: bool
  nb_hours :: "string option"
  nb_group :: int
  nb_max_students_projet :: "int option"
  is_rdv :: rdv_flag
  type_code :: "string option"
  type_title :: "string option"

text \<open>\<open>EpitechEvent\<close>, the normalized event; its \<open>id\<close> is \<open>event_id\<close>.\<close>

record module_ref =
  module_code :: string
  module_instance :: string
  module_title :: string

record activity_ref =
  activity_code :: string
  activity_title :: string

record EpitechEvent =
  event_id :: string
  title :: string
  description :: string
  location :: string
  startDate :: Date
  endDate :: Date
  module_of :: module_ref
  activity :: activity_ref
  eventCode :: string
  semester :: int
  instructors :: "string list"
  isRegistered :: bool
  isPast :: bool

section \<open>Event normalizer\<close>

text \<open>\<open>formatRoomCode\<close>: "FR/PAR/KB2-Pasteur/Bureau-APE" becomes
  "KB2 Pasteur: Bureau APE".\<close>

definition formatRoomCode :: "string \<Rightarrow> string" where
  "formatRoomCode code =
     (let parts = split_on (CHR ''/'') code;
          relevantParts = drop 2 parts
      in case relevantParts of
           [] \<Rightarrow> code
         | b # rest \<Rightarrow>
             (let building = replace_all (CHR ''-'') '' '' b;
                  room = js_join '' '' (map (replace_all (CHR ''-'') '' '') rest)
              in if room \<noteq> [] then building @ '': '' @ room else building))"

text \<open>
  \<open>cleanActivityTitle\<close>: \<open>title.replace(/\s*\[OBLIGATOIRE\]\s*/gi, ' ').trim()\<close>. The
  regular expression matches at a position when the white space from there on is
  followed by the tag, in any letter case; a match takes the white space after the tag
  too, and the search goes on behind it.
\<close>

definition to_upper :: "char \<Rightarrow> char" where
  "to_upper c =
     (if 97 \<le> (of_char c :: nat) \<and> (of_char c :: nat) \<le> 122
      then char_of ((of_char c :: nat) - 32) else c)"

definition starts_with_ci :: "string \<Rightarrow> string \<Rightarrow> bool" where
  "starts_with_ci pat s =
     (length pat \<le> length s \<and> map to_upper (take (length pat) s) = map to_upper pat)"

definition obligatoire_tag :: string where
  "obligatoire_tag = ''[OBLIGATOIRE]''"

function replace_tag :: "string \<Rightarrow> string" where
  "replace_tag [] = []"
| "replace_tag (x # xs) =
     (let rest = dropWhile is_space (x # xs)
      in if starts_with_ci obligatoire_tag rest
         then CHR '' '' # replace_tag (dropWhile is_space (drop (length obligatoire_tag) rest))
         else x # replace_tag xs)"
  by pat_completeness auto
termination
proof (relation "measure length")
  fix x :: char and xs rest :: string
  assume rest: "rest = dropWhile is_space (x # xs)"
    and tag: "starts_with_ci obligatoire_tag rest"
  have "length rest \<ge> length obligatoire_tag"
    using tag by (simp add: starts_with_ci_def)
  then have "length (drop (length obligatoire_tag) rest) < length rest"
    by (simp add: obligatoire_tag_def)
  then have "length (dropWhile is_space (drop (length obligatoire_tag) rest)) < length rest"
    using length_dropWhile_le [of is_space "drop (length obligatoire_tag) rest"] by linarith
  also have "length rest \<le> length (x # xs)"
    unfolding rest by (rule length_dropWhile_le)
  finally show "(dropWhile is_space (drop (length obligatoire_tag) rest), x # xs)
      \<in> measure length"
    by simp
qed simp_all

definition cleanActivityTitle :: "string \<Rightarrow> string" where
  "cleanActivityTitle t = trim (replace_tag t)"

text \<open>\<open>formatDuration\<close>. \<open>Math.floor(minutes / 60)\<close> rounds down and \<open>minutes % 60\<close> takes
  the sign of \<open>minutes\<close>; on \<open>NaN\<close> both comparisons fail and the last branch prints
  it.\<close>

definition js_rem :: "int \<Rightarrow> int \<Rightarrow> int" where
  "js_rem a b = (if a < 0 then - ((- a) mod b) else a mod b)"

definition formatDuration :: "number \<Rightarrow> string" where
  "formatDuration minutes =
     (case minutes of
        None \<Rightarrow> ''NaN'' @ ''min''
      | Some m \<Rightarrow>
          (let hours = m div 60;
               mins = js_rem m 60
           in if hours > 0 \<and> mins > 0
              then toString (Some hours) @ ''h'' @ padStart2 (toString (Some mins))
              else if hours > 0 then toString (Some hours) @ ''h''
              else toString (Some mins) @ ''min''))"

text \<open>\<open>getRealTimeSlot\<close>. A value is truthy when it is neither \<open>null\<close> nor the empty
  string. A slot without a vertical bar leaves \<open>realEnd\<close> undefined, and
  \<open>parseEpitechDate\<close> then throws on \<open>dateStr.split\<close>.\<close>

record time_slot =
  slot_start :: Date
  slot_end :: Date
  isPersonalSlot :: "bool option"
  duration :: "string option"

definition truthy :: "string option \<Rightarrow> bool" where
  "truthy v = (case v of None \<Rightarrow> False | Some s \<Rightarrow> s \<noteq> [])"

definition isRdvEvent :: "EpitechRawEvent \<Rightarrow> bool" where
  "isRdvEvent raw =
     (is_rdv raw = RdvString ''1'' \<or> is_rdv raw = RdvBool True \<or> is_rdv raw = RdvNumber 1)"

definition chosen_slot :: "EpitechRawEvent \<Rightarrow> string option" where
  "chosen_slot raw =
     (if truthy (rdv_indiv_registered raw) then rdv_indiv_registered raw
      else rdv_group_registered raw)"

definition sub_times :: "number \<Rightarrow> number \<Rightarrow> number" where
  "sub_times a b = (case (a, b) of (Some x, Some y) \<Rightarrow> Some (x - y) | _ \<Rightarrow> None)"

definition round_minutes :: "number \<Rightarrow> number" where
  "round_minutes durationMs = map_option (\<lambda>ms. (ms + 30000) div 60000) durationMs"

definition undefined_split_error :: js_error where
  "undefined_split_error =
     TypeError (''Cannot read properties of undefined (reading '' @ [CHR 0x27] @ ''split'' @
                [CHR 0x27] @ '')'')"

definition getRealTimeSlot :: "host \<Rightarrow> EpitechRawEvent \<Rightarrow> js_error + time_slot" where
  "getRealTimeSlot h raw =
     (if isRdvEvent raw then
        (if truthy (chosen_slot raw) then
           (let parts = split_on (CHR ''|'') (case chosen_slot raw of None \<Rightarrow> [] | Some s \<Rightarrow> s);
                realStart = at_index parts 0;
                realEnd = at_index parts 1;
                startDate = parseEpitechDate h (case realStart of None \<Rightarrow> [] | Some x \<Rightarrow> x)
            in case realEnd of
                 None \<Rightarrow> Inl undefined_split_error
               | Some e \<Rightarrow>
                   (let endDate = parseEpitechDate h e;
                        durationMs = sub_times (getTime endDate) (getTime startDate);
                        durationMin = round_minutes durationMs
                    in Inr \<lparr> slot_start = startDate, slot_end = endDate,
                             isPersonalSlot = Some True,
                             duration = Some (formatDuration durationMin) \<rparr>))
         else
           Inr \<lparr> slot_start = parseEpitechDate h (raw_start raw),
                 slot_end = parseEpitechDate h (raw_end raw),
                 isPersonalSlot = Some False,
                 duration = nb_hours raw \<rparr>)
      else
        Inr \<lparr> slot_start = parseEpitechDate h (raw_start raw),
              slot_end = parseEpitechDate h (raw_end raw),
              isPersonalSlot = None,
              duration = nb_hours raw \<rparr>)"

text \<open>\<open>transformEvent\<close>. The marker of an appointment whose slot is not reserved is
  "[CRENEAU NON RESERVE] ", written with three E with acute accent.\<close>

definition not_reserved_marker :: string where
  "not_reserved_marker =
     ''[CR'' @ [CHR 0xC9] @ ''NEAU NON R'' @ [CHR 0xC9] @ ''SERV'' @ [CHR 0xC9] @ ''] ''"

definition instructor_name :: "prof \<Rightarrow> string" where
  "instructor_name p = (if prof_title p \<noteq> [] then prof_title p else prof_login p)"

definition is_registered_raw :: "EpitechRawEvent \<Rightarrow> bool" where
  "is_registered_raw raw =
     (event_registered raw = Some ''registered'' \<or>
      event_registered raw = Some ''present'' \<or>
      event_registered raw = Some ''absent'' \<or>
      raw_registered raw = True)"

definition descriptionParts :: "EpitechRawEvent \<Rightarrow> string \<Rightarrow> time_slot \<Rightarrow> string list" where
  "descriptionParts raw activityTitle timeSlot =
     [''Module: '' @ titlemodule raw,
      ''Activity: '' @ activityTitle] @
     (case prof_inst raw of
        Some (p # ps) \<Rightarrow>
          [''Instructor(s): '' @ js_join '', '' (map instructor_name (p # ps))]
      | _ \<Rightarrow> []) @
     (if truthy (duration timeSlot)
      then [''Duration: '' @ (case duration timeSlot of None \<Rightarrow> [] | Some d \<Rightarrow> d)]
      else []) @
     (if isPersonalSlot timeSlot = Some True
      then [''Slot: Personal slot reserved'']
      else if isPersonalSlot timeSlot = Some False
      then [''Slot: NOT RESERVED - Book your slot!'']
      else []) @
     [''Registered: '' @ (if is_registered_raw raw then ''Yes'' else ''No''),
      [],
      ''Intra: '' @ ''https://intra.epitech.eu/module/'' @ scolaryear raw @ ''/'' @
        codemodule raw @ ''/'' @ codeinstance raw @ ''/'' @ codeacti raw]"

definition transformEvent :: "host \<Rightarrow> EpitechRawEvent \<Rightarrow> string \<Rightarrow> js_error + EpitechEvent" where
  "transformEvent h raw prefix =
     (let activityTitle = cleanActivityTitle (acti_title raw)
      in case getRealTimeSlot h raw of
           Inl e \<Rightarrow> Inl e
         | Inr timeSlot \<Rightarrow>
             Inr \<lparr> event_id = ''epitech-'' @ codeacti raw @ ''-'' @ codeevent raw,
                   title =
                     (if isPersonalSlot timeSlot = Some False
                      then prefix @ not_reserved_marker @ activityTitle
                      else prefix @ activityTitle),
                   description = js_join [CHR 0x0A] (descriptionParts raw activityTitle timeSlot),
                   location =
                     (case room raw of
                        Some r \<Rightarrow> formatRoomCode (room_code r)
                      | None \<Rightarrow>
                          if instance_location raw \<noteq> [] then instance_location raw else []),
                   startDate = slot_start timeSlot,
                   endDate = slot_end timeSlot,
                   module_of = \<lparr> module_code = codemodule raw,
                                 module_instance = codeinstance raw,
                                 module_title = titlemodule raw \<rparr>,
                   activity = \<lparr> activity_code = codeacti raw,
                                activity_title = activityTitle \<rparr>,
                   eventCode = codeevent raw,
                   semester = raw_semester raw,
                   instructors = (case prof_inst raw of
                                    Some ps \<Rightarrow> map instructor_name ps
                                  | None \<Rightarrow> []),
                   isRegistered = is_registered_raw raw,
                   isPast = raw_past raw \<rparr>)"

text \<open>\<open>isUserRegisteredToEvent\<close>, the filter \<open>getEventsForSync\<close> applies before it
  transforms the records.\<close>

definition isUserRegisteredToEvent :: "EpitechRawEvent \<Rightarrow> bool" where
  "isUserRegisteredToEvent event =
     (if event_registered event = Some ''present'' \<or>
         event_registered event = Some ''registered'' \<or>
         event_registered event = Some ''absent''
      then True
      else if rdv_group_registered event \<noteq> None \<or> rdv_indiv_registered event \<noteq> None
      then True
      else False)"

text \<open>The comparison \<open>a <= b\<close> of two dates: on their time values, and false when
  either is \<open>NaN\<close>.\<close>

definition date_le :: "Date \<Rightarrow> Date \<Rightarrow> bool" where
  "date_le a b = (case (getTime a, getTime b) of (Some x, Some y) \<Rightarrow> x \<le> y | _ \<Rightarrow> False)"

text \<open>What a caller reads off the result of \<open>transformEvent\<close>: the id, and the two
  time values.\<close>

definition transformed_id :: "js_error + EpitechEvent \<Rightarrow> string option" where
  "transformed_id r = (case r of Inl e \<Rightarrow> None | Inr ev \<Rightarrow> Some (event_id ev))"

definition transformed_times :: "js_error + EpitechEvent \<Rightarrow> (number \<times> number) option" where
  "transformed_times r =
     (case r of Inl e \<Rightarrow> None | Inr ev \<Rightarrow> Some (getTime (startDate ev), getTime (endDate ev)))"

text \<open>The time window \<open>getRealTimeSlot\<close> parses: the two pieces of the reserved
  slot for an appointment with a reservation, the nominal \<open>start\<close> and \<open>end\<close>
  otherwise.\<close>

definition window_start :: "EpitechRawEvent \<Rightarrow> string" where
  "window_start raw =
     (if isRdvEvent raw \<and> truthy (chosen_slot raw)
      then (case at_index (split_on (CHR ''|'') (case chosen_slot raw of None \<Rightarrow> [] | Some s \<Rightarrow> s)) 0 of
              None \<Rightarrow> [] | Some x \<Rightarrow> x)
      else raw_start raw)"

definition window_end :: "EpitechRawEvent \<Rightarrow> string" where
  "window_end raw =
     (if isRdvEvent raw \<and> truthy (chosen_slot raw)
      then (case at_index (split_on (CHR ''|'') (case chosen_slot raw of None \<Rightarrow> [] | Some s \<Rightarrow> s)) 1 of
              None \<Rightarrow> [] | Some x \<Rightarrow> x)
      else raw_end raw)"


section \<open>ICS generator\<close>

definition escapeIcsText :: "string \<Rightarrow> string" where
  "escapeIcsText text =
     replace_all (CHR 0x0A) [CHR 0x5C, CHR ''n'']
       (replace_all (CHR '','') [CHR 0x5C, CHR '','']
          (replace_all (CHR '';'') [CHR 0x5C, CHR '';'']
             (replace_all (CHR 0x5C) [CHR 0x5C, CHR 0x5C] text)))"

definition generateUid :: "EpitechEvent \<Rightarrow> string" where
  "generateUid event = event_id event @ ''@epitech.eu''"

section \<open>ICS generator: line folding\<close>

definition maxLength :: nat where
  "maxLength = 75"

text \<open>The \<open>while (remaining.length > 0)\<close> loop of \<open>foldLine\<close>, with its accumulator
  \<open>lines\<close>.\<close>

function foldLine_loop :: "string list \<Rightarrow> string \<Rightarrow> string list" where
  "foldLine_loop lines remaining =
     (if length remaining > 0
      then foldLine_loop (lines @ [CHR '' '' # take (maxLength - 1) remaining])
             (drop (maxLength - 1) remaining)
      else lines)"
  by pat_completeness auto
termination
  by (relation "measure (\<lambda>(lines, remaining). length remaining)") (auto simp: maxLength_def)

declare foldLine_loop.simps [simp del]

text \<open>The physical lines \<open>foldLine\<close> joins (the array \<open>lines\<close> at the \<open>return\<close>).\<close>

definition foldLine_lines :: "string \<Rightarrow> string list" where
  "foldLine_lines line =
     foldLine_loop [take maxLength line] (drop maxLength line)"

definition foldLine :: "string \<Rightarrow> string" where
  "foldLine line =
     (if length line \<le> maxLength then line
      else js_join CRLF (foldLine_lines line))"

text \<open>
  \<open>generateVEvent\<close>. \<open>now\<close> is what \<open>new Date()\<close> returns when the function runs. The
  three calls of \<open>toIcsDateTime\<close> run in the order of the source, and the first to throw
  ends the function. \<open>vevent_lines\<close> is the array \<open>lines\<close> before folding.
\<close>

definition vevent_lines :: "host \<Rightarrow> Date \<Rightarrow> EpitechEvent \<Rightarrow> js_error + string list" where
  "vevent_lines h now event =
     (case toIcsDateTime h now of
        Inl e \<Rightarrow> Inl e
      | Inr stamp \<Rightarrow>
     (case toIcsDateTime h (startDate event) of
        Inl e \<Rightarrow> Inl e
      | Inr dtstart \<Rightarrow>
     (case toIcsDateTime h (endDate event) of
        Inl e \<Rightarrow> Inl e
      | Inr dtend \<Rightarrow>
          Inr ([''BEGIN:VEVENT'',
                ''UID:'' @ generateUid event,
                ''DTSTAMP:'' @ stamp,
                ''DTSTART;TZID=Europe/Paris:'' @ dtstart,
                ''DTEND;TZID=Europe/Paris:'' @ dtend,
                ''SUMMARY:'' @ escapeIcsText (title event)] @
               (if description event \<noteq> []
                then [''DESCRIPTION:'' @ escapeIcsText (description event)] else []) @
               (if location event \<noteq> []
                then [''LOCATION:'' @ escapeIcsText (location event)] else []) @
               [''CATEGORIES:EPITECH,'' @ escapeIcsText (module_title (module_of event)),
                ''STATUS:'' @ (if isRegistered event then ''CONFIRMED'' else ''TENTATIVE''),
                ''TRANSP:OPAQUE'',
                ''SEQUENCE:0'',
                ''END:VEVENT'']))))"

definition generateVEvent :: "host \<Rightarrow> Date \<Rightarrow> EpitechEvent \<Rightarrow> js_error + string" where
  "generateVEvent h now event =
     (case vevent_lines h now event of
        Inl e \<Rightarrow> Inl e
      | Inr lines \<Rightarrow> Inr (js_join CRLF (map foldLine lines)))"

text \<open>
  The \<open>for (const event of events)\<close> loop of \<open>generateIcsContent\<close>. Every
  \<open>generateVEvent\<close> reads the clock once: \<open>clock k\<close> is the time value the \<open>k\<close>-th reading
  returns.
\<close>

fun generateVEvents :: "host \<Rightarrow> (nat \<Rightarrow> int) \<Rightarrow> nat \<Rightarrow> EpitechEvent list \<Rightarrow> js_error + string list" where
  "generateVEvents h clock k [] = Inr []"
| "generateVEvents h clock k (event # events) =
     (case generateVEvent h (MkDate (Some (clock k))) event of
        Inl e \<Rightarrow> Inl e
      | Inr v \<Rightarrow>
          (case generateVEvents h clock (Suc k) events of
             Inl e \<Rightarrow> Inl e
           | Inr vs \<Rightarrow> Inr (v # vs)))"

definition generateIcsContent :: "host \<Rightarrow> (nat \<Rightarrow> int) \<Rightarrow> EpitechEvent list \<Rightarrow> js_error + string" where
  "generateIcsContent h clock events =
     (case generateVEvents h clock 0 events of
        Inl e \<Rightarrow> Inl e
      | Inr vs \<Rightarrow>
          Inr (js_join CRLF
                 ([''BEGIN:VCALENDAR'',
                   ''VERSION:2.0'',
                   ''PRODID:-//Epitech Calendar Sync//EN'',
                   ''CALSCALE:GREGORIAN'',
                   ''METHOD:PUBLISH'',
                   ''X-WR-CALNAME:Epitech Calendar'',
                   ''X-WR-TIMEZONE:Europe/Paris'',
                   getTimezoneVtimezone] @ vs @ [''END:VCALENDAR''])))"

section \<open>Settings\<close>

text \<open>\<open>GoogleCalendarSettings\<close> and \<open>OutlookCalendarSettings\<close> have the same fields, and
  one record stands for both; its \<open>enabled\<close> and \<open>connected\<close> are \<open>cal_enabled\<close> and
  \<open>cal_connected\<close>.\<close>

record CalendarSettings =
  cal_enabled :: bool
  cal_connected :: bool
  calendarId :: "string option"
  calendarName :: string
  accessToken :: "string option"
  refreshToken :: "string option"
  tokenExpiry :: "int option"

datatype AutoSyncFrequency = Every_visit | Once_daily | Manual

record ExtensionSettings =
  eventPrefix :: string
  syncPeriod :: "string \<times> string"
  autoSync :: "bool \<times> AutoSyncFrequency"
  notificationsEnabled :: bool
  googleCalendar :: CalendarSettings
  outlookCalendar :: CalendarSettings
  icsExport :: "bool \<times> bool"
  lastSyncTimestamp :: "int option"
  lastSyncDate :: "string option"

section \<open>Google Calendar: the service\<close>

text \<open>
  An event of the calendar is the id the service gave it and the fields the client
  wrote. \<open>private_properties\<close> is \<open>extendedProperties?.private\<close>: \<open>None\<close> when either
  level is absent.
\<close>

record time_point =
  dateTime :: string
  timeZone :: string

record GoogleEventBody =
  g_summary :: string
  g_description :: "string option"
  g_location :: "string option"
  g_start :: time_point
  g_end :: time_point
  private_properties :: "(string \<times> string) list option"

record GoogleCalendarEvent =
  g_id :: string
  g_body :: GoogleEventBody

definition epitechId_of :: "GoogleEventBody \<Rightarrow> string option" where
  "epitechId_of b =
     (case private_properties b of None \<Rightarrow> None | Some ps \<Rightarrow> map_of ps ''epitechId'')"

text \<open>
  The requests the adapter sends: the method and the endpoint, with the calendar id, and
  the query or the body. A page token is the offset the next page starts at.
\<close>

datatype request =
    ListEvents string nat "string \<times> string" "nat option"
  | InsertEvent string GoogleEventBody
  | UpdateEvent string string GoogleCalendarEvent
  | DeleteEvent string string

datatype response_body =
    EventsPage "GoogleCalendarEvent list" "nat option"
  | EventResource GoogleCalendarEvent
  | ErrorBody string
  | EmptyObject

record http_response =
  status :: nat
  statusText :: string
  body :: "response_body option"

text \<open>
  The service is not part of the repository. It is modelled as far as the adapter
  relies on it:
  \<^item> the calendar is a list of events with distinct ids, in the order they were created
    (\<open>AList.update\<close> replaces the event that has the id, or appends a new one);
  \<^item> the list request returns, page by page, the events whose private property matches
    the constraint \<open>name=value\<close> asked for. The adapter asks for \<open>epitechId=epitech-\<close>,
    filters nothing itself, and expects every mirrored event back. The source does not say
    how the service reads the constraint, so the reading is the field \<open>list_match\<close> of the
    environment: \<open>By_prefix\<close> when the value of the property has to start with the value
    asked for, \<open>By_value\<close> when it has to be equal to it;
  \<^item> an insert gives the new event an id no event of the calendar has;
  \<^item> an update replaces the event that has the id, and a delete removes it; both answer
    404 when no event has the id;
  \<^item> a successful delete is answered as the field \<open>delete_reply\<close> of the environment
    says: with 204 and an empty body when it is \<open>None\<close>, which is what Google Calendar
    does, and with 200 and that body otherwise;
  \<^item> \<open>faults\<close> names the requests the service refuses, with the status and the message
    of the refusal (a status from 200 to 299 is no refusal, and is read as 500), and
    \<open>auth_token\<close> is what \<open>chrome.identity\<close> hands out.
\<close>

type_synonym calendar = "(string \<times> GoogleEventBody) list"

datatype property_match = By_prefix | By_value

record google_env =
  auth_token :: "string option"
  faults :: "request \<Rightarrow> (nat \<times> string) option"
  delete_reply :: "response_body option"
  list_match :: property_match

definition no_content :: http_response where
  "no_content = \<lparr> status = 204, statusText = ''No Content'', body = None \<rparr>"

definition ok_reply :: "response_body \<Rightarrow> http_response" where
  "ok_reply b = \<lparr> status = 200, statusText = ''OK'', body = Some b \<rparr>"

definition error_reply :: "nat \<Rightarrow> string \<Rightarrow> http_response" where
  "error_reply code msg = \<lparr> status = code, statusText = msg, body = Some (ErrorBody msg) \<rparr>"

definition refusal_status :: "nat \<Rightarrow> nat" where
  "refusal_status code = (if 200 \<le> code \<and> code \<le> 299 then 500 else code)"

definition has_property :: "property_match \<Rightarrow> string \<times> string \<Rightarrow> GoogleEventBody \<Rightarrow> bool" where
  "has_property m q b =
     (case private_properties b of
        None \<Rightarrow> False
      | Some ps \<Rightarrow>
          (case map_of ps (fst q) of
             None \<Rightarrow> False
           | Some v \<Rightarrow>
               (case m of
                  By_prefix \<Rightarrow> take (length (snd q)) v = snd q
                | By_value \<Rightarrow> v = snd q)))"

definition as_event :: "string \<times> GoogleEventBody \<Rightarrow> GoogleCalendarEvent" where
  "as_event p = \<lparr> g_id = fst p, g_body = snd p \<rparr>"

definition matching ::
    "property_match \<Rightarrow> string \<times> string \<Rightarrow> calendar \<Rightarrow> GoogleCalendarEvent list" where
  "matching m q cal = map as_event (filter (\<lambda>p. has_property m q (snd p)) cal)"

definition fresh_id :: "calendar \<Rightarrow> string" where
  "fresh_id cal = replicate (Suc (foldr (\<lambda>p n. max (length (fst p)) n) cal 0)) (CHR ''g'')"

definition serve :: "google_env \<Rightarrow> calendar \<Rightarrow> request \<Rightarrow> http_response \<times> calendar" where
  "serve env cal req =
     (case faults env req of
        Some (code, msg) \<Rightarrow> (error_reply (refusal_status code) msg, cal)
      | None \<Rightarrow>
          (case req of
             ListEvents cid maxResults q pageToken \<Rightarrow>
               (let found = matching (list_match env) q cal;
                    off = (case pageToken of None \<Rightarrow> 0 | Some t \<Rightarrow> t)
                in (ok_reply (EventsPage (take maxResults (drop off found))
                      (if off + maxResults < length found then Some (off + maxResults)
                       else None)),
                    cal))
           | InsertEvent cid b \<Rightarrow>
               (ok_reply (EventResource \<lparr> g_id = fresh_id cal, g_body = b \<rparr>),
                AList.update (fresh_id cal) b cal)
           | UpdateEvent cid eid ev \<Rightarrow>
               (if eid \<in> fst ` set cal
                then (ok_reply (EventResource \<lparr> g_id = eid, g_body = g_body ev \<rparr>),
                      AList.update eid (g_body ev) cal)
                else (error_reply 404 ''Not Found'', cal))
           | DeleteEvent cid eid \<Rightarrow>
               (if eid \<in> fst ` set cal
                then ((case delete_reply env of None \<Rightarrow> no_content | Some b \<Rightarrow> ok_reply b),
                      AList.delete eid cal)
                else (error_reply 404 ''Not Found'', cal))))"

section \<open>Google Calendar: the adapter\<close>

text \<open>
  \<open>googleApiRequest\<close>: the token first, then the request; a status outside 200 to 299
  throws (401 with its own message), and the result is \<open>response.json()\<close>, which rejects
  when the response has no body. Unlike \<open>graphApiRequest\<close> of the Outlook adapter, it
  has no branch for 204.
\<close>

definition response_ok :: "http_response \<Rightarrow> bool" where
  "response_ok r = (200 \<le> status r \<and> status r \<le> 299)"

definition error_message_of :: "http_response \<Rightarrow> string" where
  "error_message_of r =
     (case body r of
        Some (ErrorBody (c # cs)) \<Rightarrow> c # cs
      | _ \<Rightarrow> statusText r)"

definition googleApiRequest ::
    "google_env \<Rightarrow> calendar \<Rightarrow> request \<Rightarrow> (js_error + response_body) \<times> calendar" where
  "googleApiRequest env cal req =
     (case auth_token env of
        None \<Rightarrow> (Inl (Error ''Failed to get authentication token''), cal)
      | Some [] \<Rightarrow> (Inl (Error ''Failed to get authentication token''), cal)
      | Some token \<Rightarrow>
          (let (response, cal') = serve env cal req
           in if \<not> response_ok response then
                (if status response = 401
                 then (Inl (Error ''Authentication expired. Please reconnect Google Calendar.''),
                       cal')
                 else (Inl (Error (''Google API error: '' @ toString (Some (int (status response)))
                                   @ '' - '' @ error_message_of response)), cal'))
              else (case body response of
                      None \<Rightarrow> (Inl (SyntaxError ''Unexpected end of JSON input''), cal')
                    | Some b \<Rightarrow> (Inr b, cal'))))"

text \<open>\<open>toGoogleEvent\<close>; \<open>toISOString\<close> throws on an invalid date.\<close>

definition toGoogleEvent :: "EpitechEvent \<Rightarrow> js_error + GoogleEventBody" where
  "toGoogleEvent event =
     (case toISOString (startDate event) of
        Inl e \<Rightarrow> Inl e
      | Inr s \<Rightarrow>
          (case toISOString (endDate event) of
             Inl e \<Rightarrow> Inl e
           | Inr e \<Rightarrow>
               Inr \<lparr> g_summary = title event,
                     g_description = Some (description event),
                     g_location = (if location event \<noteq> [] then Some (location event) else None),
                     g_start = \<lparr> dateTime = s, timeZone = ''Europe/Paris'' \<rparr>,
                     g_end = \<lparr> dateTime = e, timeZone = ''Europe/Paris'' \<rparr>,
                     private_properties =
                       Some [(''epitechId'', event_id event),
                             (''moduleCode'', module_code (module_of event)),
                             (''activityCode'', activity_code (activity event)),
                             (''eventCode'', eventCode event)] \<rparr>))"

text \<open>
  \<open>getExistingEvents\<close>. The \<open>Map\<close> is an association list in insertion order: \<open>set\<close> on a
  key that is present replaces its value in place. The loop is the \<open>do ... while
  (pageToken)\<close> of the source; it ends because every page token the service hands out is
  a larger offset into the same list.
\<close>

type_synonym event_map = "(string \<times> GoogleCalendarEvent) list"

definition map_set :: "string \<Rightarrow> GoogleCalendarEvent \<Rightarrow> event_map \<Rightarrow> event_map" where
  "map_set k v m = AList.update k v m"

definition add_page :: "GoogleCalendarEvent list \<Rightarrow> event_map \<Rightarrow> event_map" where
  "add_page items events =
     fold (\<lambda>event m. if truthy (epitechId_of (g_body event))
                      then map_set (case epitechId_of (g_body event) of None \<Rightarrow> [] | Some i \<Rightarrow> i)
                             event m
                      else m) items events"

definition page_items :: "response_body \<Rightarrow> GoogleCalendarEvent list" where
  "page_items r = (case r of EventsPage items t \<Rightarrow> items | _ \<Rightarrow> [])"

definition nextPageToken :: "response_body \<Rightarrow> nat option" where
  "nextPageToken r = (case r of EventsPage items t \<Rightarrow> t | _ \<Rightarrow> None)"

definition list_request :: "string \<Rightarrow> nat option \<Rightarrow> request" where
  "list_request calId pageToken =
     ListEvents calId 2500 (''epitechId'', ''epitech-'') pageToken"

function getExistingEvents_loop ::
    "google_env \<Rightarrow> calendar \<Rightarrow> string \<Rightarrow> event_map \<Rightarrow> nat option
      \<Rightarrow> (js_error + event_map) \<times> calendar" where
  "getExistingEvents_loop env cal calId events pageToken =
     (case googleApiRequest env cal (list_request calId pageToken) of
        (Inl e, cal') \<Rightarrow> (Inl e, cal')
      | (Inr response, cal') \<Rightarrow>
          (let events' = add_page (page_items response) events
           in case nextPageToken response of
                Some t \<Rightarrow> getExistingEvents_loop env cal' calId events' (Some t)
              | None \<Rightarrow> (Inr events', cal')))"
  by pat_completeness auto
termination
proof (relation "measure (\<lambda>(env, cal, calId, events, pageToken).
    length (matching (list_match env) (''epitechId'', ''epitech-'') cal)
      - (case pageToken of None \<Rightarrow> 0 | Some t \<Rightarrow> t))")
  show "wf (measure (\<lambda>(env, cal, calId, events, pageToken).
    length (matching (list_match env) (''epitechId'', ''epitech-'') cal)
      - (case pageToken of None \<Rightarrow> 0 | Some t \<Rightarrow> t)))"
    by simp
next
  fix env :: google_env and cal cal' :: calendar and calId :: string
    and events events' :: event_map and pageToken :: "nat option"
    and r :: "js_error + response_body" and response :: response_body and t :: nat
  assume req: "(r, cal') = googleApiRequest env cal (list_request calId pageToken)"
    and r: "r = Inr response"
    and ev: "events' = add_page (page_items response) events"
    and tok: "nextPageToken response = Some t"
  let ?found = "matching (list_match env) (''epitechId'', ''epitech-'') cal"
  let ?off = "case pageToken of None \<Rightarrow> 0 | Some t \<Rightarrow> t"
  from req r have g: "googleApiRequest env cal (list_request calId pageToken)
      = (Inr response, cal')"
    by simp
  then have "cal' = cal \<and> (response = EventsPage (take 2500 (drop ?off ?found))
      (if ?off + 2500 < length ?found then Some (?off + 2500) else None)
      \<or> (\<exists>m. response = ErrorBody m))"
    by (auto simp: googleApiRequest_def serve_def list_request_def Let_def ok_reply_def
        error_reply_def response_ok_def split: option.splits list.splits if_splits prod.splits)
  with tok have "cal' = cal" and "t = ?off + 2500" and "?off + 2500 < length ?found"
    by (auto simp: nextPageToken_def split: if_splits)
  then show "((env, cal', calId, events', Some t), env, cal, calId, events, pageToken)
      \<in> measure (\<lambda>(env, cal, calId, events, pageToken).
        length (matching (list_match env) (''epitechId'', ''epitech-'') cal)
          - (case pageToken of None \<Rightarrow> 0 | Some t \<Rightarrow> t))"
    by simp
qed

declare getExistingEvents_loop.simps [simp del]

definition getExistingEvents ::
    "google_env \<Rightarrow> calendar \<Rightarrow> string \<Rightarrow> (js_error + event_map) \<times> calendar" where
  "getExistingEvents env cal calId = getExistingEvents_loop env cal calId [] None"

text \<open>
  \<open>syncToGoogleCalendar\<close>. \<open>sync_event\<close> is the body of the first \<open>for\<close> loop for one
  event: the first component of its result is the error that leaves the loop
  (\<open>toGoogleEvent\<close> stands outside the inner \<open>try\<close>), the rest is the calendar, the
  \<open>result\<close> object and the set \<open>processedIds\<close>. \<open>delete_loop\<close> is the second \<open>for\<close>
  loop, over the entries of the \<open>Map\<close> in insertion order.
\<close>

record SyncResultDetails =
  created :: nat
  updated :: nat
  deleted :: nat
  errors :: "string list"

type_synonym sync_state = "calendar \<times> SyncResultDetails \<times> string set"

definition sync_event ::
    "google_env \<Rightarrow> string \<Rightarrow> event_map \<Rightarrow> EpitechEvent \<Rightarrow> sync_state
      \<Rightarrow> js_error option \<times> sync_state" where
  "sync_event env calId existingEvents event s =
     (case s of (cal, result, processedIds) \<Rightarrow>
        (let processedIds' = insert (event_id event) processedIds
         in case toGoogleEvent event of
              Inl e \<Rightarrow> (Some e, cal, result, processedIds')
            | Inr googleEvent \<Rightarrow>
                (case map_of existingEvents (event_id event) of
                   Some existing \<Rightarrow>
                     (case googleApiRequest env cal
                             (UpdateEvent calId (g_id existing)
                                \<lparr> g_id = g_id existing, g_body = googleEvent \<rparr>) of
                        (Inr response, cal') \<Rightarrow>
                          (None, cal', result \<lparr> updated := updated result + 1 \<rparr>, processedIds')
                      | (Inl error, cal') \<Rightarrow>
                          (None, cal',
                           result \<lparr> errors := errors result @
                             [''Event '' @ event_id event @ '': '' @ message error] \<rparr>,
                           processedIds'))
                 | None \<Rightarrow>
                     (case googleApiRequest env cal (InsertEvent calId googleEvent) of
                        (Inr response, cal') \<Rightarrow>
                          (None, cal', result \<lparr> created := created result + 1 \<rparr>, processedIds')
                      | (Inl error, cal') \<Rightarrow>
                          (None, cal',
                           result \<lparr> errors := errors result @
                             [''Event '' @ event_id event @ '': '' @ message error] \<rparr>,
                           processedIds')))))"

fun sync_events ::
    "google_env \<Rightarrow> string \<Rightarrow> event_map \<Rightarrow> EpitechEvent list \<Rightarrow> sync_state
      \<Rightarrow> js_error option \<times> sync_state" where
  "sync_events env calId existingEvents [] s = (None, s)"
| "sync_events env calId existingEvents (event # events) s =
     (case sync_event env calId existingEvents event s of
        (Some e, s') \<Rightarrow> (Some e, s')
      | (None, s') \<Rightarrow> sync_events env calId existingEvents events s')"

fun delete_loop ::
    "google_env \<Rightarrow> string \<Rightarrow> string set \<Rightarrow> event_map \<Rightarrow> calendar \<times> SyncResultDetails
      \<Rightarrow> calendar \<times> SyncResultDetails" where
  "delete_loop env calId processedIds [] s = s"
| "delete_loop env calId processedIds ((epitechId, googleEvent) # rest) (cal, result) =
     (if epitechId \<notin> processedIds then
        (case googleApiRequest env cal (DeleteEvent calId (g_id googleEvent)) of
           (Inr response, cal') \<Rightarrow>
             delete_loop env calId processedIds rest
               (cal', result \<lparr> deleted := deleted result + 1 \<rparr>)
         | (Inl error, cal') \<Rightarrow>
             delete_loop env calId processedIds rest
               (cal', result \<lparr> errors := errors result @
                  [''Delete '' @ epitechId @ '': '' @ message error] \<rparr>))
      else delete_loop env calId processedIds rest (cal, result))"

definition empty_result :: SyncResultDetails where
  "empty_result = \<lparr> created = 0, updated = 0, deleted = 0, errors = [] \<rparr>"

text \<open>The settings are what \<open>getSettings\<close> resolves to. A result \<open>Inl\<close> is the promise
  rejected: the calendar id is missing.\<close>

definition syncToGoogleCalendar ::
    "google_env \<Rightarrow> ExtensionSettings \<Rightarrow> calendar \<Rightarrow> EpitechEvent list
      \<Rightarrow> (js_error + SyncResultDetails) \<times> calendar" where
  "syncToGoogleCalendar env settings cal events =
     (if \<not> truthy (calendarId (googleCalendar settings))
      then (Inl (Error ''Google Calendar not connected''), cal)
      else
        (let cid = (case calendarId (googleCalendar settings) of None \<Rightarrow> [] | Some c \<Rightarrow> c)
         in case getExistingEvents env cal cid of
              (Inl e, cal1) \<Rightarrow> (Inr (empty_result \<lparr> errors := [message e] \<rparr>), cal1)
            | (Inr existingEvents, cal1) \<Rightarrow>
                (case sync_events env cid existingEvents events (cal1, empty_result, {}) of
                   (Some e, cal2, result, processedIds) \<Rightarrow>
                     (Inr (result \<lparr> errors := errors result @ [message e] \<rparr>), cal2)
                 | (None, cal2, result, processedIds) \<Rightarrow>
                     (case delete_loop env cid processedIds existingEvents (cal2, result) of
                        (cal3, result') \<Rightarrow> (Inr result', cal3)))))"

section \<open>Sync manager\<close>

text \<open>
  \<open>performSync\<close> runs in the extension's single-threaded service worker. Between two
  \<open>await\<close>s nothing else runs, so the test of the module variable \<open>isSyncing\<close> and the
  assignment that follows it are one step; a request that arrives while a pass is
  suspended at an \<open>await\<close> is a call of \<open>performSync\<close> in a world where \<open>isSyncing\<close> is
  true.

  The world is the module variable, what the extension keeps in \<open>browser.storage.local\<close>,
  and the log of the calls made to the collaborators, in order. What the collaborators
  answer is the environment: the clock, whether a write of the status succeeds (one
  answer per call site), and the outcomes of the authentication check, the fetch, the
  cache write, the settings read, the two calendar adapters, \<open>markSyncCompleted\<close> and
  the notifications. A result \<open>Inl\<close> is the promise rejected.
\<close>

record SyncStatus =
  isConnected :: bool
  status_isSyncing :: bool
  lastSync :: "int option"
  lastError :: "string option"

datatype sync_action = Created | Updated | Deleted | Unchanged

record EventSyncResult =
  eventId :: string
  action :: sync_action
  detail_success :: bool
  detail_error :: "string option"

record SyncResult =
  success :: bool
  timestamp :: int
  eventsProcessed :: nat
  eventsCreated :: nat
  eventsUpdated :: nat
  eventsDeleted :: nat
  sync_errors :: "string list"
  details :: "EventSyncResult list"

datatype status_site = AtStart | OnConnected | OnError | AtEnd

datatype call =
    WriteStatus status_site
  | CheckAuthentication
  | GetEventsForSync
  | CacheEvents
  | GetSettings
  | SyncToGoogleCalendar
  | SyncToOutlookCalendar
  | MarkSyncCompleted
  | CreateNotification string string

record world =
  isSyncing :: bool
  syncStatus :: SyncStatus
  cachedEvents :: "EpitechEvent list option"
  stored_settings :: ExtensionSettings
  calls :: "call list"

record sync_env =
  date_now :: int
  status_write :: "status_site \<Rightarrow> js_error option"
  authenticated :: bool
  events_for_sync :: "js_error + EpitechEvent list"
  cache_write :: "js_error option"
  settings_read :: "js_error option"
  google_sync :: "EpitechEvent list \<Rightarrow> js_error + SyncResultDetails"
  outlook_sync :: "EpitechEvent list \<Rightarrow> js_error + SyncResultDetails"
  mark_completed :: "js_error option"
  notification :: "js_error option"

definition updateSyncStatus ::
    "sync_env \<Rightarrow> status_site \<Rightarrow> (SyncStatus \<Rightarrow> SyncStatus) \<Rightarrow> world \<Rightarrow> js_error option \<times> world" where
  "updateSyncStatus env site change w =
     (case status_write env site of
        Some e \<Rightarrow> (Some e, w \<lparr> calls := calls w @ [WriteStatus site] \<rparr>)
      | None \<Rightarrow>
          (None, w \<lparr> syncStatus := change (syncStatus w),
                     calls := calls w @ [WriteStatus site] \<rparr>))"

definition getSettings :: "sync_env \<Rightarrow> world \<Rightarrow> (js_error + ExtensionSettings) \<times> world" where
  "getSettings env w =
     (case settings_read env of
        Some e \<Rightarrow> (Inl e, w \<lparr> calls := calls w @ [GetSettings] \<rparr>)
      | None \<Rightarrow> (Inr (stored_settings w), w \<lparr> calls := calls w @ [GetSettings] \<rparr>))"

definition cacheEvents :: "sync_env \<Rightarrow> EpitechEvent list \<Rightarrow> world \<Rightarrow> js_error option \<times> world" where
  "cacheEvents env events w =
     (case cache_write env of
        Some e \<Rightarrow> (Some e, w \<lparr> calls := calls w @ [CacheEvents] \<rparr>)
      | None \<Rightarrow> (None, w \<lparr> cachedEvents := Some events, calls := calls w @ [CacheEvents] \<rparr>))"

definition markSyncCompleted :: "sync_env \<Rightarrow> world \<Rightarrow> js_error option \<times> world" where
  "markSyncCompleted env w =
     (case mark_completed env of
        Some e \<Rightarrow> (Some e, w \<lparr> calls := calls w @ [MarkSyncCompleted] \<rparr>)
      | None \<Rightarrow>
          (None,
           w \<lparr> stored_settings := (stored_settings w)
                  \<lparr> lastSyncTimestamp := Some (date_now env),
                    lastSyncDate :=
                      (case toISOString (MkDate (Some (date_now env))) of
                         Inl e \<Rightarrow> None
                       | Inr s \<Rightarrow> at_index (split_on (CHR ''T'') s) 0) \<rparr>,
               syncStatus := (syncStatus w) \<lparr> lastSync := Some (date_now env), lastError := None \<rparr>,
               calls := calls w @ [MarkSyncCompleted] \<rparr>))"

definition create_notification ::
    "sync_env \<Rightarrow> string \<Rightarrow> string \<Rightarrow> world \<Rightarrow> js_error option \<times> world" where
  "create_notification env ttl msg w =
     (notification env, w \<lparr> calls := calls w @ [CreateNotification ttl msg] \<rparr>)"

definition showNotification :: "sync_env \<Rightarrow> SyncResult \<Rightarrow> world \<Rightarrow> js_error option \<times> world" where
  "showNotification env result w =
     create_notification env
       (if success result then ''Epitech Calendar Sync - Success''
        else ''Epitech Calendar Sync - Completed with errors'')
       (if success result
        then ''Synced '' @ toString (Some (int (eventsProcessed result))) @ '' events. Created: '' @
             toString (Some (int (eventsCreated result))) @ '', Updated: '' @
             toString (Some (int (eventsUpdated result))) @ '', Deleted: '' @
             toString (Some (int (eventsDeleted result)))
        else ''Synced with '' @ toString (Some (int (length (sync_errors result)))) @
             '' error(s). '' @
             (case sync_errors result of [] \<Rightarrow> ''undefined'' | e # es \<Rightarrow> e))
       w"

text \<open>One calendar service inside the \<open>try\<close> block: its own \<open>try\<close>/\<open>catch\<close>, so that a
  rejected adapter becomes an entry of the error list.\<close>

definition sync_service ::
    "call \<Rightarrow> string \<Rightarrow> string \<Rightarrow> (js_error + SyncResultDetails) \<Rightarrow> SyncResult \<times> world
      \<Rightarrow> SyncResult \<times> world" where
  "sync_service c label failed outcome s =
     (case s of (result, w) \<Rightarrow>
        (case outcome of
           Inr r \<Rightarrow>
             (result \<lparr> eventsCreated := eventsCreated result + created r,
                       eventsUpdated := eventsUpdated result + updated r,
                       eventsDeleted := eventsDeleted result + deleted r,
                       sync_errors := sync_errors result @ map (\<lambda>e. label @ e) (errors r) \<rparr>,
              w \<lparr> calls := calls w @ [c] \<rparr>)
         | Inl e \<Rightarrow>
             (result \<lparr> sync_errors := sync_errors result @ [failed @ message e] \<rparr>,
              w \<lparr> calls := calls w @ [c] \<rparr>)))"

text \<open>The \<open>try\<close> block: the error it throws, if any, with the \<open>result\<close> object and the
  world at that point.\<close>

definition try_block ::
    "sync_env \<Rightarrow> bool \<Rightarrow> SyncResult \<Rightarrow> world \<Rightarrow> js_error option \<times> SyncResult \<times> world" where
  "try_block env manual result w =
     (let w1 = w \<lparr> calls := calls w @ [CheckAuthentication] \<rparr>
      in if \<not> authenticated env
         then (Some (Error ''Not authenticated to Epitech intranet. Please visit intra.epitech.eu and log in.''),
               result, w1)
         else
     (case updateSyncStatus env OnConnected (\<lambda>s. s \<lparr> isConnected := True \<rparr>) w1 of
        (Some e, w2) \<Rightarrow> (Some e, result, w2)
      | (None, w2) \<Rightarrow>
     (let w3 = w2 \<lparr> calls := calls w2 @ [GetEventsForSync] \<rparr>
      in case events_for_sync env of
           Inl e \<Rightarrow> (Some e, result, w3)
         | Inr events \<Rightarrow>
     (let result1 = result \<lparr> eventsProcessed := length events \<rparr>
      in case cacheEvents env events w3 of
           (Some e, w4) \<Rightarrow> (Some e, result1, w4)
         | (None, w4) \<Rightarrow>
     (case getSettings env w4 of
        (Inl e, w5) \<Rightarrow> (Some e, result1, w5)
      | (Inr st, w5) \<Rightarrow>
     (let s6 = (if cal_enabled (googleCalendar st) \<and> cal_connected (googleCalendar st)
                then sync_service SyncToGoogleCalendar ''Google: ''
                       ''Google Calendar sync failed: '' (google_sync env events) (result1, w5)
                else (result1, w5));
          s7 = (if cal_enabled (outlookCalendar st) \<and> cal_connected (outlookCalendar st)
                then sync_service SyncToOutlookCalendar ''Outlook: ''
                       ''Outlook Calendar sync failed: '' (outlook_sync env events) s6
                else s6)
      in case markSyncCompleted env (snd s7) of
           (Some e, w8) \<Rightarrow> (Some e, fst s7, w8)
         | (None, w8) \<Rightarrow>
     (let result9 = (fst s7) \<lparr> success := (sync_errors (fst s7) = []) \<rparr>
      in if notificationsEnabled st \<and> manual
         then (case showNotification env result9 w8 of (e, w9) \<Rightarrow> (e, result9, w9))
         else (None, result9, w8))))))))"

text \<open>The \<open>catch\<close> block: the error it throws itself, if any.\<close>

definition catch_block ::
    "sync_env \<Rightarrow> js_error \<Rightarrow> SyncResult \<Rightarrow> world \<Rightarrow> js_error option \<times> SyncResult \<times> world" where
  "catch_block env error result w =
     (let errorMsg = message error;
          result1 = result \<lparr> success := False, sync_errors := sync_errors result @ [errorMsg] \<rparr>
      in case updateSyncStatus env OnError (\<lambda>s. s \<lparr> lastError := Some errorMsg \<rparr>) w of
           (Some e, w1) \<Rightarrow> (Some e, result1, w1)
         | (None, w1) \<Rightarrow>
             (case getSettings env w1 of
                (Inl e, w2) \<Rightarrow> (Some e, result1, w2)
              | (Inr st, w2) \<Rightarrow>
                  (if notificationsEnabled st
                   then (case create_notification env ''Epitech Calendar Sync - Error'' errorMsg w2 of
                           (e, w3) \<Rightarrow> (e, result1, w3))
                   else (None, result1, w2))))"

text \<open>The \<open>finally\<close> block: the flag is cleared before the status is written.\<close>

definition finally_block :: "sync_env \<Rightarrow> world \<Rightarrow> js_error option \<times> world" where
  "finally_block env w =
     updateSyncStatus env AtEnd (\<lambda>s. s \<lparr> status_isSyncing := False \<rparr>) (w \<lparr> isSyncing := False \<rparr>)"

definition already_in_progress :: "sync_env \<Rightarrow> SyncResult" where
  "already_in_progress env =
     \<lparr> success = False, timestamp = date_now env, eventsProcessed = 0, eventsCreated = 0,
       eventsUpdated = 0, eventsDeleted = 0, sync_errors = [''Sync already in progress''],
       details = [] \<rparr>"

definition performSync :: "sync_env \<Rightarrow> bool \<Rightarrow> world \<Rightarrow> (js_error + SyncResult) \<times> world" where
  "performSync env manual w =
     (if isSyncing w then (Inr (already_in_progress env), w)
      else
        (case updateSyncStatus env AtStart
                (\<lambda>s. s \<lparr> status_isSyncing := True, lastError := None \<rparr>)
                (w \<lparr> isSyncing := True \<rparr>) of
           (Some e, w1) \<Rightarrow> (Inl e, w1)
         | (None, w1) \<Rightarrow>
             (let result = \<lparr> success = True, timestamp = date_now env, eventsProcessed = 0,
                             eventsCreated = 0, eventsUpdated = 0, eventsDeleted = 0,
                             sync_errors = [], details = [] \<rparr>;
                  tried = try_block env manual result w1;
                  caught = (case tried of
                              (None, r, w2) \<Rightarrow> (None, r, w2)
                            | (Some e, r, w2) \<Rightarrow> catch_block env e r w2)
              in case caught of (thrown, r, w3) \<Rightarrow>
                   (case finally_block env w3 of
                      (Some e, w4) \<Rightarrow> (Inl e, w4)
                    | (None, w4) \<Rightarrow>
                        (case thrown of
                           Some e \<Rightarrow> (Inl e, w4)
                         | None \<Rightarrow> (Inr r, w4))))))"

section \<open>Reconciliation: what a pass does, in closed form\<close>

text \<open>
  The notions the properties of a pass are stated with. \<open>tag_of cal i\<close> is the
  \<open>epitechId\<close> of the event with id \<open>i\<close>, if the calendar has that event and the event
  has the property; \<open>mirrored_ids\<close> are the ids that start with "epitech-" and tag an
  event, the ids the list request answers with when the service reads its constraint by
  prefix.
  \<open>existing_of\<close> is the \<open>Map\<close> that \<open>getExistingEvents\<close> builds when no list request is
  refused. \<open>upsert_request\<close> is the request the first loop sends for an event,
  \<open>accepted\<close> says that the service does not refuse it, and \<open>upsert_error\<close> is the entry
  of the error list when it does. \<open>stale\<close> are the entries of the \<open>Map\<close> the second
  loop deletes.
\<close>

definition auth_ok :: "google_env \<Rightarrow> bool" where
  "auth_ok env = truthy (auth_token env)"

definition refusal :: "nat \<times> string \<Rightarrow> js_error" where
  "refusal f =
     (if refusal_status (fst f) = 401
      then Error ''Authentication expired. Please reconnect Google Calendar.''
      else Error (''Google API error: '' @ toString (Some (int (refusal_status (fst f)))) @
                  '' - '' @ snd f))"

definition listed :: "google_env \<Rightarrow> calendar \<Rightarrow> GoogleCalendarEvent list" where
  "listed env cal = matching (list_match env) (''epitechId'', ''epitech-'') cal"

definition existing_of :: "google_env \<Rightarrow> calendar \<Rightarrow> event_map" where
  "existing_of env cal = add_page (listed env cal) []"

definition tag_of :: "calendar \<Rightarrow> string \<Rightarrow> string option" where
  "tag_of cal i = (case map_of cal i of None \<Rightarrow> None | Some b \<Rightarrow> epitechId_of b)"




definition entries_present :: "event_map \<Rightarrow> calendar \<Rightarrow> bool" where
  "entries_present ex cal = (\<forall>p \<in> set ex. tag_of cal (g_id (snd p)) = Some (fst p))"

definition valid_dates :: "EpitechEvent \<Rightarrow> bool" where
  "valid_dates e = (case toGoogleEvent e of Inl err \<Rightarrow> False | Inr b \<Rightarrow> True)"

definition upsert_request :: "string \<Rightarrow> event_map \<Rightarrow> EpitechEvent \<Rightarrow> GoogleEventBody \<Rightarrow> request" where
  "upsert_request cid ex e b =
     (case map_of ex (event_id e) of
        None \<Rightarrow> InsertEvent cid b
      | Some g \<Rightarrow> UpdateEvent cid (g_id g) \<lparr> g_id = g_id g, g_body = b \<rparr>)"

definition accepted :: "google_env \<Rightarrow> string \<Rightarrow> event_map \<Rightarrow> EpitechEvent \<Rightarrow> bool" where
  "accepted env cid ex e =
     (case toGoogleEvent e of
        Inl err \<Rightarrow> False
      | Inr b \<Rightarrow> faults env (upsert_request cid ex e b) = None)"

definition upsert_error :: "google_env \<Rightarrow> string \<Rightarrow> event_map \<Rightarrow> EpitechEvent \<Rightarrow> string" where
  "upsert_error env cid ex e =
     (case toGoogleEvent e of
        Inl err \<Rightarrow> []
      | Inr b \<Rightarrow>
          (case faults env (upsert_request cid ex e b) of
             None \<Rightarrow> []
           | Some f \<Rightarrow> ''Event '' @ event_id e @ '': '' @ message (refusal f)))"

definition is_new :: "event_map \<Rightarrow> EpitechEvent \<Rightarrow> bool" where
  "is_new ex e = (map_of ex (event_id e) = None)"

definition step_cal :: "google_env \<Rightarrow> string \<Rightarrow> event_map \<Rightarrow> EpitechEvent \<Rightarrow> calendar \<Rightarrow> calendar" where
  "step_cal env cid ex e cal =
     (case toGoogleEvent e of
        Inl err \<Rightarrow> cal
      | Inr b \<Rightarrow>
          if faults env (upsert_request cid ex e b) = None
          then AList.update
                 (case map_of ex (event_id e) of None \<Rightarrow> fresh_id cal | Some g \<Rightarrow> g_id g) b cal
          else cal)"

definition stale :: "string set \<Rightarrow> event_map \<Rightarrow> event_map" where
  "stale P ex = filter (\<lambda>p. fst p \<notin> P) ex"

definition delete_refused :: "google_env \<Rightarrow> string \<Rightarrow> string \<times> GoogleCalendarEvent \<Rightarrow> bool" where
  "delete_refused env cid p = (faults env (DeleteEvent cid (g_id (snd p))) \<noteq> None)"

definition delete_error :: "google_env \<Rightarrow> string \<Rightarrow> string \<times> GoogleCalendarEvent \<Rightarrow> string" where
  "delete_error env cid p =
     ''Delete '' @ fst p @ '': '' @
       (case faults env (DeleteEvent cid (g_id (snd p))) of
          Some f \<Rightarrow> message (refusal f)
        | None \<Rightarrow> ''Unexpected end of JSON input'')"

definition delete_cal :: "google_env \<Rightarrow> string \<Rightarrow> string \<times> GoogleCalendarEvent \<Rightarrow> calendar \<Rightarrow> calendar" where
  "delete_cal env cid p cal =
     (if delete_refused env cid p then cal else AList.delete (g_id (snd p)) cal)"


section \<open>Sample records\<close>

text \<open>A defense with an individual reservation, as the planning endpoint returns it,
  and variations of it; the concrete inputs of the evaluations below.\<close>

definition sample_raw :: EpitechRawEvent where
  "sample_raw =
     \<lparr> scolaryear = ''2024'',
       acti_title = ''Defense [OBLIGATOIRE]'',
       raw_start = ''2025-03-01 09:00:00'',
       raw_end = ''2025-03-01 18:00:00'',
       room = Some \<lparr> room_code = ''FR/PAR/KB2-Pasteur/Bureau-APE'', room_type = ''bureau'',
                     room_seats = 4 \<rparr>,
       codemodule = ''B-INN-000'',
       codeinstance = ''PAR-0-1'',
       codeacti = ''acti-505014'',
       codeevent = ''event-467549'',
       raw_semester = 0,
       instance_location = ''FR/PAR'',
       titlemodule = ''B0 - Hub'',
       prof_inst = Some [\<lparr> prof_type = ''user'', prof_login = ''jane.doe@epitech.eu'',
                            prof_title = ''Jane Doe'', prof_picture = [] \<rparr>],
       raw_registered = False,
       event_registered = Some ''registered'',
       rdv_group_registered = None,
       rdv_indiv_registered = Some ''2025-03-01 10:00:00|2025-03-01 11:00:00'',
       module_registered = True,
       raw_past = False,
       allow_register = True,
       allow_token = True,
       nb_hours = Some ''09:00:00'',
       nb_group = 1,
       nb_max_students_projet = None,
       is_rdv = RdvString ''1'',
       type_code = Some ''rdv'',
       type_title = Some ''Defense'' \<rparr>"

text \<open>The host of the evaluations: local time one hour ahead of UTC.\<close>

definition cet :: host where
  "cet = fixed_offset 3600000"

definition sample_unreserved :: EpitechRawEvent where
  "sample_unreserved = sample_raw \<lparr> rdv_indiv_registered := None \<rparr>"

definition sample_other_module :: EpitechRawEvent where
  "sample_other_module = sample_raw \<lparr> codemodule := ''G-EPI-010'' \<rparr>"

definition sample_reversed :: EpitechRawEvent where
  "sample_reversed = sample_raw \<lparr> is_rdv := RdvBool False, rdv_indiv_registered := None,
     raw_start := ''2025-03-01 11:00:00'', raw_end := ''2025-03-01 10:00:00'' \<rparr>"

definition sample_absent :: EpitechRawEvent where
  "sample_absent = sample_raw \<lparr> event_registered := Some ''absent'' \<rparr>"

definition sample_event :: EpitechEvent where
  "sample_event =
     \<lparr> event_id = ''epitech-acti-505014-event-467549'',
       title = ''EPITECH - Defense'',
       description = js_join [CHR 0x0A]
         [''Module: B0 - Hub'', ''Activity: Defense'', ''Instructor(s): Jane Doe'',
          ''Duration: 1h'', ''Slot: Personal slot reserved'', ''Registered: Yes'', [],
          ''Intra: https://intra.epitech.eu/module/2024/B-INN-000/PAR-0-1/acti-505014''],
       location = ''KB2 Pasteur: Bureau APE'',
       startDate = MkDate (Some 1740819600000),
       endDate = MkDate (Some 1740823200000),
       module_of = \<lparr> module_code = ''B-INN-000'', module_instance = ''PAR-0-1'',
                     module_title = ''B0 - Hub'' \<rparr>,
       activity = \<lparr> activity_code = ''acti-505014'', activity_title = ''Defense'' \<rparr>,
       eventCode = ''event-467549'',
       semester = 0,
       instructors = [''Jane Doe''],
       isRegistered = True,
       isPast = False \<rparr>"


text \<open>The reconciliation scenario of the specification: the calendar holds the mirrored
  events A, B and C, and the canonical events are B, C and D. The service answers a
  delete with no content, as Google Calendar does, and reads the constraint of the list
  request by prefix, as the adapter expects it to.\<close>

definition id_A :: string where "id_A = ''epitech-acti-1-event-1''"
definition id_B :: string where "id_B = ''epitech-acti-2-event-2''"
definition id_C :: string where "id_C = ''epitech-acti-3-event-3''"
definition id_D :: string where "id_D = ''epitech-acti-4-event-4''"

definition canonical :: "string \<Rightarrow> EpitechEvent" where
  "canonical i = sample_event \<lparr> event_id := i \<rparr>"

definition mirrored :: "string \<Rightarrow> GoogleEventBody" where
  "mirrored i =
     \<lparr> g_summary = ''EPITECH - Defense'',
       g_description = Some [],
       g_location = None,
       g_start = \<lparr> dateTime = ''2025-02-01T09:00:00.000Z'', timeZone = ''Europe/Paris'' \<rparr>,
       g_end = \<lparr> dateTime = ''2025-02-01T10:00:00.000Z'', timeZone = ''Europe/Paris'' \<rparr>,
       private_properties = Some [(''epitechId'', i)] \<rparr>"

definition calendar_ABC :: calendar where
  "calendar_ABC = [(''g1'', mirrored id_A), (''g2'', mirrored id_B), (''g3'', mirrored id_C)]"

definition google :: google_env where
  "google = \<lparr> auth_token = Some ''token'', faults = (\<lambda>req. None), delete_reply = None,
                list_match = By_prefix \<rparr>"

definition connected_settings :: ExtensionSettings where
  "connected_settings =
     \<lparr> eventPrefix = ''EPITECH - '',
       syncPeriod = (''today'', ''+12months''),
       autoSync = (False, Once_daily),
       notificationsEnabled = True,
       googleCalendar = \<lparr> cal_enabled = True, cal_connected = True,
         calendarId = Some ''calendar-1'', calendarName = ''Epitech'', accessToken = None,
         refreshToken = None, tokenExpiry = None \<rparr>,
       outlookCalendar = \<lparr> cal_enabled = False, cal_connected = False,
         calendarId = None, calendarName = ''Epitech'', accessToken = None,
         refreshToken = None, tokenExpiry = None \<rparr>,
       icsExport = (True, False),
       lastSyncTimestamp = None,
       lastSyncDate = None \<rparr>"

text \<open>A world at rest, and collaborators that all answer.\<close>

definition sample_sync_env :: sync_env where
  "sample_sync_env =
     \<lparr> date_now = 1740819600000,
       status_write = (\<lambda>site. None),
       authenticated = True,
       events_for_sync = Inr [sample_event],
       cache_write = None,
       settings_read = None,
       google_sync = (\<lambda>events. Inr \<lparr> created = length events, updated = 0, deleted = 0, errors = [] \<rparr>),
       outlook_sync = (\<lambda>events. Inl (Error ''Outlook Calendar not connected'')),
       mark_completed = None,
       notification = None \<rparr>"

definition idle_world :: world where
  "idle_world =
     \<lparr> isSyncing = False,
       syncStatus = \<lparr> isConnected = False, status_isSyncing = False, lastSync = None,
                      lastError = None \<rparr>,
       cachedEvents = None,
       stored_settings = connected_settings,
       calls = [] \<rparr>"

text \<open>What is left on the calendar: the id and the tag of every event. And a service
  that answers a delete with a body.\<close>

definition mirror_tags :: "calendar \<Rightarrow> (string \<times> string option) list" where
  "mirror_tags cal = map (\<lambda>p. (fst p, epitechId_of (snd p))) cal"

definition google_with_body :: google_env where
  "google_with_body = google \<lparr> delete_reply := Some EmptyObject \<rparr>"


text \<open>A service that refuses every update of one event, and nothing else; and the
  scenario in which it refuses the update of B.\<close>

definition failing_update :: "string \<Rightarrow> nat \<times> string \<Rightarrow> request \<Rightarrow> (nat \<times> string) option" where
  "failing_update i f req =
     (case req of
        UpdateEvent c j ev \<Rightarrow> if j = i then Some f else None
      | _ \<Rightarrow> None)"

definition google_B_fails :: google_env where
  "google_B_fails = google \<lparr> faults := failing_update ''g2'' (500, ''Backend Error'') \<rparr>"



text \<open>A calendar that holds two mirrors of A.\<close>

definition calendar_twins :: calendar where
  "calendar_twins = [(''g1'', mirrored id_A), (''g5'', mirrored id_A)]"

text \<open>A service that reads the constraint of the list request as an equality.\<close>

definition google_by_value :: google_env where
  "google_by_value = google \<lparr> list_match := By_value \<rparr>"

text \<open>Collaborators of the sync manager whose storage rejects the first write of the
  status, and no other.\<close>

definition start_write_fails :: sync_env where
  "start_write_fails =
     sample_sync_env \<lparr> status_write :=
       (\<lambda>site. if site = AtStart then Some (Error ''QUOTA_BYTES quota exceeded'') else None) \<rparr>"

text \<open>An appointment whose individual reservation holds a single date, with no vertical
  bar.\<close>

definition sample_no_bar :: EpitechRawEvent where
  "sample_no_bar = sample_raw \<lparr> rdv_indiv_registered := Some ''2025-03-01 10:00:00'' \<rparr>"



section \<open>Line folding: properties\<close>

lemma foldLine_loop_unfold:
  "foldLine_loop acc r = acc @ foldLine_loop [] r"
proof (induction "length r" arbitrary: acc r rule: less_induct)
  case less
  show ?case
  proof (cases "length r > 0")
    case True
    let ?c = "CHR '' '' # take (maxLength - 1) r"
    let ?r = "drop (maxLength - 1) r"
    have smaller: "length ?r < length r"
      using True by (simp add: maxLength_def)
    have "foldLine_loop acc r = foldLine_loop (acc @ [?c]) ?r"
      using True by (subst foldLine_loop.simps) simp
    also have "\<dots> = (acc @ [?c]) @ foldLine_loop [] ?r"
      by (rule less.hyps [OF smaller])
    also have "\<dots> = acc @ ([?c] @ foldLine_loop [] ?r)"
      by simp
    also have "[?c] @ foldLine_loop [] ?r = foldLine_loop ([] @ [?c]) ?r"
      using less.hyps [OF smaller, of "[?c]"] by simp
    also have "\<dots> = foldLine_loop [] r"
      using True by (subst (2) foldLine_loop.simps) simp
    finally show ?thesis .
  next
    case False
    then show ?thesis by (simp add: foldLine_loop.simps)
  qed
qed

lemma foldLine_loop_bound:
  "list_all (\<lambda>l. length l \<le> maxLength) (foldLine_loop [] r)"
proof (induction "length r" arbitrary: r rule: less_induct)
  case less
  show ?case
  proof (cases "length r > 0")
    case True
    let ?c = "CHR '' '' # take (maxLength - 1) r"
    let ?r = "drop (maxLength - 1) r"
    have smaller: "length ?r < length r"
      using True by (simp add: maxLength_def)
    have "foldLine_loop [] r = foldLine_loop ([] @ [?c]) ?r"
      using True by (subst foldLine_loop.simps) simp
    also have "\<dots> = [?c] @ foldLine_loop [] ?r"
      using foldLine_loop_unfold [of "[?c]" ?r] by simp
    finally have eq: "foldLine_loop [] r = ?c # foldLine_loop [] ?r"
      by simp
    have "length ?c \<le> maxLength"
      by (simp add: maxLength_def)
    with less.hyps [OF smaller] show ?thesis
      unfolding eq by simp
  next
    case False
    then show ?thesis by (simp add: foldLine_loop.simps)
  qed
qed

text \<open>Counted in code units, the folding keeps its bound: no physical line is longer
  than 75 code units.\<close>

lemma foldLine_lines_code_units:
  "list_all (\<lambda>l. length l \<le> maxLength) (foldLine_lines line)"
proof -
  have "foldLine_lines line = take maxLength line # foldLine_loop [] (drop maxLength line)"
    unfolding foldLine_lines_def
    using foldLine_loop_unfold [of "[take maxLength line]" "drop maxLength line"] by simp
  then show ?thesis
    using foldLine_loop_bound [of "drop maxLength line"] by simp
qed

text \<open>
  C8. The claim: every physical line that \<open>foldLine\<close> emits is at most 75 octets
  long. \<open>foldLine\<close> measures \<open>line.length\<close>, which counts UTF-16 code units, while its
  own comment and RFC 5545 count octets. The summary line of an appointment whose slot
  is not reserved carries the marker with three accented letters: at 75 code units it is
  returned unfolded, and is 78 octets long in the exported UTF-8 document.
\<close>

theorem foldLine_octets_failing_input:
  "foldLine (''SUMMARY:EPITECH - [CR'' @ [CHR 0xC9] @ ''NEAU NON R'' @ [CHR 0xC9] @
      ''SERV'' @ [CHR 0xC9] @ ''] '' @ replicate 35 (CHR ''x''))
     = ''SUMMARY:EPITECH - [CR'' @ [CHR 0xC9] @ ''NEAU NON R'' @ [CHR 0xC9] @
      ''SERV'' @ [CHR 0xC9] @ ''] '' @ replicate 35 (CHR ''x'')
   \<and> utf8_octets (foldLine (''SUMMARY:EPITECH - [CR'' @ [CHR 0xC9] @ ''NEAU NON R'' @
      [CHR 0xC9] @ ''SERV'' @ [CHR 0xC9] @ ''] '' @ replicate 35 (CHR ''x''))) = 78"
  by (simp add: foldLine_def maxLength_def utf8_octets_def sum_list_replicate)

section \<open>Event normalizer and ICS generator: properties\<close>

lemma js_join_append:
  "xs \<noteq> [] \<Longrightarrow> ys \<noteq> [] \<Longrightarrow> js_join sep (xs @ ys) = js_join sep xs @ sep @ js_join sep ys"
proof (induction sep xs rule: js_join.induct)
  case (1 sep)
  then show ?case by simp
next
  case (2 sep x)
  then show ?case by (cases ys) simp_all
next
  case (3 sep x y ys')
  then show ?case by simp
qed

lemma transformEvent_isRegistered:
  "transformEvent h raw prefix = Inr ev \<Longrightarrow> isRegistered ev = is_registered_raw raw"
  by (auto simp: transformEvent_def Let_def split: sum.splits)

lemma transformEvent_id:
  "transformEvent h raw prefix = Inr ev \<Longrightarrow>
     event_id ev = ''epitech-'' @ codeacti raw @ ''-'' @ codeevent raw"
  by (auto simp: transformEvent_def Let_def split: sum.splits)

lemma hyphen_split_unique:
  assumes eq: "xs @ c # ys = xs' @ c # ys'" and cnt: "count_list ys c = count_list ys' c"
  shows "xs = xs' \<and> ys = ys'"
proof -
  from eq obtain us where
    "(xs = xs' @ us \<and> us @ c # ys = c # ys') \<or> (xs @ us = xs' \<and> c # ys = us @ c # ys')"
    by (auto simp: append_eq_append_conv2)
  then show ?thesis
  proof
    assume a: "xs = xs' @ us \<and> us @ c # ys = c # ys'"
    show ?thesis
    proof (cases us)
      case Nil
      with a show ?thesis by simp
    next
      case (Cons u us')
      with a have "ys' = us' @ c # ys" by simp
      then have "count_list ys' c = count_list us' c + 1 + count_list ys c" by simp
      with cnt show ?thesis by simp
    qed
  next
    assume a: "xs @ us = xs' \<and> c # ys = us @ c # ys'"
    show ?thesis
    proof (cases us)
      case Nil
      with a show ?thesis by simp
    next
      case (Cons u us')
      with a have "ys = us' @ c # ys'" by simp
      then have "count_list ys c = count_list us' c + 1 + count_list ys' c" by simp
      with cnt show ?thesis by simp
    qed
  qed
qed

text \<open>
  C6, amended. The id is \<open>epitech-<codeacti>-<codeevent>\<close>: records with the same
  activity and event codes get the same id, whatever their module codes, hosts and
  prefixes; and records whose activity or event codes differ get distinct ids when their
  event codes hold the same number of hyphens (as codes of the form \<open>event-NNN\<close> do).
\<close>

theorem event_id_activity_event_codes:
  assumes "transformEvent h1 r1 p1 = Inr e1" and "transformEvent h2 r2 p2 = Inr e2"
  shows "(codeacti r1 = codeacti r2 \<and> codeevent r1 = codeevent r2 \<longrightarrow> event_id e1 = event_id e2)
       \<and> (count_list (codeevent r1) (CHR ''-'') = count_list (codeevent r2) (CHR ''-'')
            \<and> (codeacti r1 \<noteq> codeacti r2 \<or> codeevent r1 \<noteq> codeevent r2)
          \<longrightarrow> event_id e1 \<noteq> event_id e2)"
proof -
  have i1: "event_id e1 = ''epitech-'' @ codeacti r1 @ ''-'' @ codeevent r1"
    using assms(1) by (rule transformEvent_id)
  have i2: "event_id e2 = ''epitech-'' @ codeacti r2 @ ''-'' @ codeevent r2"
    using assms(2) by (rule transformEvent_id)
  show ?thesis
  proof (intro conjI impI)
    assume "codeacti r1 = codeacti r2 \<and> codeevent r1 = codeevent r2"
    then show "event_id e1 = event_id e2" by (simp add: i1 i2)
  next
    assume h: "count_list (codeevent r1) (CHR ''-'') = count_list (codeevent r2) (CHR ''-'')
            \<and> (codeacti r1 \<noteq> codeacti r2 \<or> codeevent r1 \<noteq> codeevent r2)"
    show "event_id e1 \<noteq> event_id e2"
    proof
      assume "event_id e1 = event_id e2"
      then have eq: "codeacti r1 @ CHR ''-'' # codeevent r1 = codeacti r2 @ CHR ''-'' # codeevent r2"
        by (simp add: i1 i2)
      from h have cnt: "count_list (codeevent r1) (CHR ''-'') = count_list (codeevent r2) (CHR ''-'')"
        by (rule conjunct1)
      from h have diff: "codeacti r1 \<noteq> codeacti r2 \<or> codeevent r1 \<noteq> codeevent r2"
        by (rule conjunct2)
      from hyphen_split_unique [OF eq cnt] diff show False
        by simp
    qed
  qed
qed

lemma split_on_no_separator: "c \<notin> set s \<Longrightarrow> split_on c s = [s]"
  by (induction s) auto

text \<open>
  C5, amended. For an appointment record (\<open>is_rdv\<close> set): when the individual
  reservation holds a slot with a vertical bar, it is the one taken, whatever the group
  reservation holds; the string is split on the bar, the first piece is parsed into
  \<open>startDate\<close> and the second into \<open>endDate\<close>, and the title is the prefix followed by
  the cleaned activity title, with no marker. The group reservation is taken in the same
  way when there is no individual one. When neither reservation is present, the event
  keeps the nominal \<open>start\<close> and \<open>end\<close>, and the title is the prefix, the marker
  "[CRENEAU NON RESERVE] " (written with its three E with acute accent) and the activity
  title. When the individual reservation is present and holds no bar, \<open>realEnd\<close> is
  undefined and \<open>transformEvent\<close> throws a \<open>TypeError\<close>: there is no event.
\<close>

theorem rdv_slot_resolution:
  assumes rdv: "isRdvEvent raw"
  shows "(rdv_indiv_registered raw = Some s \<and> split_on (CHR ''|'') s = a # b # rest \<longrightarrow>
          (\<exists>ev. transformEvent h raw prefix = Inr ev \<and>
                startDate ev = parseEpitechDate h a \<and> endDate ev = parseEpitechDate h b \<and>
                title ev = prefix @ cleanActivityTitle (acti_title raw)))
       \<and> (\<not> truthy (rdv_indiv_registered raw) \<and> rdv_group_registered raw = Some s \<and>
            split_on (CHR ''|'') s = a # b # rest \<longrightarrow>
          (\<exists>ev. transformEvent h raw prefix = Inr ev \<and>
                startDate ev = parseEpitechDate h a \<and> endDate ev = parseEpitechDate h b \<and>
                title ev = prefix @ cleanActivityTitle (acti_title raw)))
       \<and> (\<not> truthy (rdv_indiv_registered raw) \<and> \<not> truthy (rdv_group_registered raw) \<longrightarrow>
          (\<exists>ev. transformEvent h raw prefix = Inr ev \<and>
                startDate ev = parseEpitechDate h (raw_start raw) \<and>
                endDate ev = parseEpitechDate h (raw_end raw) \<and>
                title ev = prefix @ ''[CR'' @ [CHR 0xC9] @ ''NEAU NON R'' @ [CHR 0xC9] @ ''SERV''
                             @ [CHR 0xC9] @ ''] '' @ cleanActivityTitle (acti_title raw)))
       \<and> (rdv_indiv_registered raw = Some s \<and> s \<noteq> [] \<and> CHR ''|'' \<notin> set s \<longrightarrow>
          (\<exists>m. transformEvent h raw prefix = Inl (TypeError m)))"
proof -
  have taken: "\<exists>ev. transformEvent h raw prefix = Inr ev \<and>
                startDate ev = parseEpitechDate h a \<and> endDate ev = parseEpitechDate h b \<and>
                title ev = prefix @ cleanActivityTitle (acti_title raw)"
    if slot: "chosen_slot raw = Some s" and sp: "split_on (CHR ''|'') s = a # b # rest"
  proof -
    have "s \<noteq> []"
      using sp by auto
    with slot have t: "truthy (chosen_slot raw)"
      by (simp add: truthy_def)
    have "getRealTimeSlot h raw =
      Inr \<lparr> slot_start = parseEpitechDate h a, slot_end = parseEpitechDate h b,
            isPersonalSlot = Some True,
            duration = Some (formatDuration (round_minutes
              (sub_times (getTime (parseEpitechDate h b)) (getTime (parseEpitechDate h a))))) \<rparr>"
      using rdv slot t sp by (simp add: getRealTimeSlot_def Let_def at_index_def)
    then show ?thesis
      by (simp add: transformEvent_def Let_def)
  qed
  have p1: "rdv_indiv_registered raw = Some s \<and> split_on (CHR ''|'') s = a # b # rest \<longrightarrow>
          (\<exists>ev. transformEvent h raw prefix = Inr ev \<and>
                startDate ev = parseEpitechDate h a \<and> endDate ev = parseEpitechDate h b \<and>
                title ev = prefix @ cleanActivityTitle (acti_title raw))"
  proof
    assume a: "rdv_indiv_registered raw = Some s \<and> split_on (CHR ''|'') s = a # b # rest"
    then have "s \<noteq> []"
      by auto
    with a have "chosen_slot raw = Some s"
      by (simp add: chosen_slot_def truthy_def)
    with a show "\<exists>ev. transformEvent h raw prefix = Inr ev \<and>
                startDate ev = parseEpitechDate h a \<and> endDate ev = parseEpitechDate h b \<and>
                title ev = prefix @ cleanActivityTitle (acti_title raw)"
      by (intro taken) simp_all
  qed
  have p2: "\<not> truthy (rdv_indiv_registered raw) \<and> rdv_group_registered raw = Some s \<and>
            split_on (CHR ''|'') s = a # b # rest \<longrightarrow>
          (\<exists>ev. transformEvent h raw prefix = Inr ev \<and>
                startDate ev = parseEpitechDate h a \<and> endDate ev = parseEpitechDate h b \<and>
                title ev = prefix @ cleanActivityTitle (acti_title raw))"
  proof
    assume a: "\<not> truthy (rdv_indiv_registered raw) \<and> rdv_group_registered raw = Some s \<and>
            split_on (CHR ''|'') s = a # b # rest"
    then have "chosen_slot raw = Some s"
      by (simp add: chosen_slot_def)
    with a show "\<exists>ev. transformEvent h raw prefix = Inr ev \<and>
                startDate ev = parseEpitechDate h a \<and> endDate ev = parseEpitechDate h b \<and>
                title ev = prefix @ cleanActivityTitle (acti_title raw)"
      by (intro taken) simp_all
  qed
  have p3: "\<not> truthy (rdv_indiv_registered raw) \<and> \<not> truthy (rdv_group_registered raw) \<longrightarrow>
          (\<exists>ev. transformEvent h raw prefix = Inr ev \<and>
                startDate ev = parseEpitechDate h (raw_start raw) \<and>
                endDate ev = parseEpitechDate h (raw_end raw) \<and>
                title ev = prefix @ ''[CR'' @ [CHR 0xC9] @ ''NEAU NON R'' @ [CHR 0xC9] @ ''SERV''
                             @ [CHR 0xC9] @ ''] '' @ cleanActivityTitle (acti_title raw))"
  proof
    assume a: "\<not> truthy (rdv_indiv_registered raw) \<and> \<not> truthy (rdv_group_registered raw)"
    then have "\<not> truthy (chosen_slot raw)"
      by (simp add: chosen_slot_def)
    then have "getRealTimeSlot h raw =
      Inr \<lparr> slot_start = parseEpitechDate h (raw_start raw),
            slot_end = parseEpitechDate h (raw_end raw),
            isPersonalSlot = Some False, duration = nb_hours raw \<rparr>"
      using rdv by (simp add: getRealTimeSlot_def)
    then show "\<exists>ev. transformEvent h raw prefix = Inr ev \<and>
                startDate ev = parseEpitechDate h (raw_start raw) \<and>
                endDate ev = parseEpitechDate h (raw_end raw) \<and>
                title ev = prefix @ ''[CR'' @ [CHR 0xC9] @ ''NEAU NON R'' @ [CHR 0xC9] @ ''SERV''
                             @ [CHR 0xC9] @ ''] '' @ cleanActivityTitle (acti_title raw)"
      by (simp add: transformEvent_def Let_def not_reserved_marker_def)
  qed
  have p4: "rdv_indiv_registered raw = Some s \<and> s \<noteq> [] \<and> CHR ''|'' \<notin> set s \<longrightarrow>
          (\<exists>m. transformEvent h raw prefix = Inl (TypeError m))"
  proof
    assume a: "rdv_indiv_registered raw = Some s \<and> s \<noteq> [] \<and> CHR ''|'' \<notin> set s"
    then have slot: "chosen_slot raw = Some s" "truthy (chosen_slot raw)"
      by (simp_all add: chosen_slot_def truthy_def)
    from a have "split_on (CHR ''|'') s = [s]"
      by (simp add: split_on_no_separator)
    then have "getRealTimeSlot h raw = Inl undefined_split_error"
      using rdv slot by (simp add: getRealTimeSlot_def Let_def at_index_def)
    then show "\<exists>m. transformEvent h raw prefix = Inl (TypeError m)"
      by (simp add: transformEvent_def Let_def undefined_split_error_def)
  qed
  from p1 p2 p3 p4 show ?thesis
    by blast
qed

lemma transformEvent_sample_raw: "transformEvent cet sample_raw ''EPITECH - '' = Inr sample_event"
  by code_simp

text \<open>
  C5, as stated for every appointment record, fails: a reservation that holds a single
  date is present, but the split gives one piece only and \<open>parseEpitechDate\<close> throws on
  the missing second one.
\<close>

theorem rdv_slot_without_bar_counterexample:
  "isRdvEvent sample_no_bar
   \<and> rdv_indiv_registered sample_no_bar = Some ''2025-03-01 10:00:00''
   \<and> transformEvent cet sample_no_bar ''EPITECH - ''
       = Inl (TypeError (''Cannot read properties of undefined (reading '' @ [CHR 0x27] @ ''split''
                         @ [CHR 0x27] @ '')''))"
  by code_simp

theorem rdv_slot_resolution_witness:
  "isRdvEvent sample_raw \<and>
   transformEvent cet sample_raw ''EPITECH - '' = Inr sample_event \<and>
   startDate sample_event = parseEpitechDate cet ''2025-03-01 10:00:00'' \<and>
   endDate sample_event = parseEpitechDate cet ''2025-03-01 11:00:00'' \<and>
   title sample_event = ''EPITECH - Defense'' \<and>
   isRdvEvent sample_unreserved \<and>
   (\<exists>ev. transformEvent cet sample_unreserved ''EPITECH - '' = Inr ev \<and>
      startDate ev = parseEpitechDate cet ''2025-03-01 09:00:00'' \<and>
      endDate ev = parseEpitechDate cet ''2025-03-01 18:00:00'' \<and>
      title ev = ''EPITECH - [CR'' @ [CHR 0xC9] @ ''NEAU NON R'' @ [CHR 0xC9] @ ''SERV''
                   @ [CHR 0xC9] @ ''] Defense'') \<and>
   isRdvEvent sample_no_bar \<and>
   (\<exists>m. transformEvent cet sample_no_bar ''EPITECH - '' = Inl (TypeError m))"
proof -
  have rdv: "isRdvEvent sample_raw"
    by (simp add: isRdvEvent_def sample_raw_def)
  have rdv': "isRdvEvent sample_unreserved"
    by (simp add: isRdvEvent_def sample_raw_def sample_unreserved_def)
  have rdv'': "isRdvEvent sample_no_bar"
    by (simp add: isRdvEvent_def sample_raw_def sample_no_bar_def)
  have sp: "rdv_indiv_registered sample_raw = Some ''2025-03-01 10:00:00|2025-03-01 11:00:00'' \<and>
      split_on (CHR ''|'') ''2025-03-01 10:00:00|2025-03-01 11:00:00''
        = ''2025-03-01 10:00:00'' # ''2025-03-01 11:00:00'' # []"
    by (simp add: sample_raw_def)
  have un: "\<not> truthy (rdv_indiv_registered sample_unreserved) \<and>
      \<not> truthy (rdv_group_registered sample_unreserved)"
    by (simp add: truthy_def sample_raw_def sample_unreserved_def)
  have nb: "rdv_indiv_registered sample_no_bar = Some ''2025-03-01 10:00:00'' \<and>
      ''2025-03-01 10:00:00'' \<noteq> [] \<and> CHR ''|'' \<notin> set ''2025-03-01 10:00:00''"
    by (simp add: sample_no_bar_def)
  from rdv_slot_resolution [OF rdv, of "''2025-03-01 10:00:00|2025-03-01 11:00:00''"
      "''2025-03-01 10:00:00''" "''2025-03-01 11:00:00''" "[]" cet "''EPITECH - ''"] sp
  obtain ev where ev: "transformEvent cet sample_raw ''EPITECH - '' = Inr ev"
      "startDate ev = parseEpitechDate cet ''2025-03-01 10:00:00''"
      "endDate ev = parseEpitechDate cet ''2025-03-01 11:00:00''"
      "title ev = ''EPITECH - '' @ cleanActivityTitle (acti_title sample_raw)"
    by blast
  from ev(1) have same: "ev = sample_event"
    by (simp add: transformEvent_sample_raw)
  have clean: "cleanActivityTitle (acti_title sample_unreserved) = ''Defense''"
    by code_simp
  from rdv_slot_resolution [OF rdv', of _ _ _ _ cet "''EPITECH - ''"] un
  obtain ev' where ev': "transformEvent cet sample_unreserved ''EPITECH - '' = Inr ev'"
      "startDate ev' = parseEpitechDate cet (raw_start sample_unreserved)"
      "endDate ev' = parseEpitechDate cet (raw_end sample_unreserved)"
      "title ev' = ''EPITECH - '' @ ''[CR'' @ [CHR 0xC9] @ ''NEAU NON R'' @ [CHR 0xC9] @ ''SERV''
                     @ [CHR 0xC9] @ ''] '' @ cleanActivityTitle (acti_title sample_unreserved)"
    by blast
  then have unreserved: "\<exists>ev. transformEvent cet sample_unreserved ''EPITECH - '' = Inr ev \<and>
      startDate ev = parseEpitechDate cet ''2025-03-01 09:00:00'' \<and>
      endDate ev = parseEpitechDate cet ''2025-03-01 18:00:00'' \<and>
      title ev = ''EPITECH - [CR'' @ [CHR 0xC9] @ ''NEAU NON R'' @ [CHR 0xC9] @ ''SERV''
                   @ [CHR 0xC9] @ ''] Defense''"
    by (simp add: clean) (simp add: sample_unreserved_def sample_raw_def)
  from rdv_slot_resolution [OF rdv'', of "''2025-03-01 10:00:00''" _ _ _ cet "''EPITECH - ''"] nb
  have thrown: "\<exists>m. transformEvent cet sample_no_bar ''EPITECH - '' = Inl (TypeError m)"
    by blast
  have t: "title sample_event = ''EPITECH - Defense''"
    by (simp add: sample_event_def)
  show ?thesis
    using rdv rdv' rdv'' ev(1,2,3) same t unreserved thrown by simp
qed


text \<open>
  C6, as stated, fails: the id is built from the activity and the event code only, so
  two records that differ in the module code alone get the same id.
\<close>

theorem event_id_module_code_counterexample:
  "codemodule sample_raw \<noteq> codemodule sample_other_module \<and>
   transformed_id (transformEvent cet sample_raw []) = Some ''epitech-acti-505014-event-467549'' \<and>
   transformed_id (transformEvent cet sample_other_module []) =
     Some ''epitech-acti-505014-event-467549''"
  by code_simp

theorem event_id_activity_event_codes_witness:
  "transformed_id (transformEvent cet sample_raw []) =
     transformed_id (transformEvent cet sample_other_module []) \<and>
   transformed_id (transformEvent cet sample_raw []) \<noteq>
     transformed_id (transformEvent cet (sample_raw \<lparr> codeevent := ''event-467550'' \<rparr>) [])"
proof -
  obtain e1 where e1: "transformEvent cet sample_raw [] = Inr e1"
    by (simp add: transformEvent_def getRealTimeSlot_def sample_raw_def isRdvEvent_def
        chosen_slot_def truthy_def at_index_def Let_def)
  obtain e2 where e2: "transformEvent cet sample_other_module [] = Inr e2"
    by (simp add: transformEvent_def getRealTimeSlot_def sample_raw_def isRdvEvent_def
        sample_other_module_def chosen_slot_def truthy_def at_index_def Let_def)
  obtain e3 where e3: "transformEvent cet (sample_raw \<lparr> codeevent := ''event-467550'' \<rparr>) [] = Inr e3"
    by (simp add: transformEvent_def getRealTimeSlot_def sample_raw_def isRdvEvent_def
        chosen_slot_def truthy_def at_index_def Let_def)
  have "event_id e1 = event_id e2"
    using event_id_activity_event_codes [OF e1 e2]
    by (simp add: sample_raw_def sample_other_module_def)
  moreover have "event_id e1 \<noteq> event_id e3"
    using event_id_activity_event_codes [OF e1 e3]
    by (simp add: sample_raw_def)
  ultimately show ?thesis
    by (simp add: e1 e2 e3 transformed_id_def)
qed

lemma getRealTimeSlot_window:
  assumes "getRealTimeSlot h raw = Inr ts"
  shows "slot_start ts = parseEpitechDate h (window_start raw)
       \<and> slot_end ts = parseEpitechDate h (window_end raw)"
proof (cases "isRdvEvent raw")
  case rdv: True
  show ?thesis
  proof (cases "truthy (chosen_slot raw)")
    case True
    with rdv assms show ?thesis
      by (auto simp: getRealTimeSlot_def window_start_def window_end_def Let_def
          split: option.splits)
  next
    case False
    with rdv assms show ?thesis
      by (auto simp: getRealTimeSlot_def window_start_def window_end_def)
  qed
next
  case False
  with assms show ?thesis
    by (auto simp: getRealTimeSlot_def window_start_def window_end_def)
qed

lemma transformEvent_slot:
  assumes "transformEvent h raw prefix = Inr ev"
  shows "\<exists>ts. getRealTimeSlot h raw = Inr ts \<and> startDate ev = slot_start ts
            \<and> endDate ev = slot_end ts"
  using assms by (auto simp: transformEvent_def Let_def split: sum.splits)

lemma transformEvent_window:
  assumes "transformEvent h raw prefix = Inr ev"
  shows "startDate ev = parseEpitechDate h (window_start raw)
       \<and> endDate ev = parseEpitechDate h (window_end raw)"
  using transformEvent_slot [OF assms] getRealTimeSlot_window by fastforce

text \<open>
  C9, as stated, fails: the normalizer parses the two ends of the window and never
  compares them. A record whose \<open>end\<close> is an hour before its \<open>start\<close> yields an event
  with \<open>startDate\<close> after \<open>endDate\<close>.
\<close>

theorem window_order_counterexample:
  "transformed_times (transformEvent cet sample_reversed []) =
     Some (Some 1740823200000, Some 1740819600000)"
  by code_simp

text \<open>
  C9, amended. The normalizer keeps the order of the window it parses (the reserved slot
  of an appointment, the nominal window otherwise): when the parsed start of that window
  is not after its parsed end, \<open>startDate <= endDate\<close> holds for the event.
\<close>

theorem window_order_preserved:
  assumes "transformEvent h raw prefix = Inr ev"
    and "date_le (parseEpitechDate h (window_start raw)) (parseEpitechDate h (window_end raw))"
  shows "date_le (startDate ev) (endDate ev)"
  using assms transformEvent_window [OF assms(1)] by simp

theorem window_order_preserved_witness:
  "date_le (startDate sample_event) (endDate sample_event)"
proof -
  have t: "transformEvent cet sample_raw ''EPITECH - '' = Inr sample_event"
    by (rule transformEvent_sample_raw)
  have "date_le (parseEpitechDate cet (window_start sample_raw))
      (parseEpitechDate cet (window_end sample_raw))"
    by code_simp
  from window_order_preserved [OF t this] show ?thesis .
qed

lemma vevent_lines_status:
  assumes "vevent_lines h now ev = Inr ls"
  shows "\<exists>pre. pre \<noteq> [] \<and> ls = pre @
     [''STATUS:'' @ (if isRegistered ev then ''CONFIRMED'' else ''TENTATIVE''),
      ''TRANSP:OPAQUE'', ''SEQUENCE:0'', ''END:VEVENT'']"
proof -
  from assms obtain stamp dtstart dtend where
    ls: "ls = ([''BEGIN:VEVENT'', ''UID:'' @ generateUid ev, ''DTSTAMP:'' @ stamp,
                ''DTSTART;TZID=Europe/Paris:'' @ dtstart,
                ''DTEND;TZID=Europe/Paris:'' @ dtend,
                ''SUMMARY:'' @ escapeIcsText (title ev)] @
               (if description ev \<noteq> []
                then [''DESCRIPTION:'' @ escapeIcsText (description ev)] else []) @
               (if location ev \<noteq> []
                then [''LOCATION:'' @ escapeIcsText (location ev)] else []) @
               [''CATEGORIES:EPITECH,'' @ escapeIcsText (module_title (module_of ev))]) @
               [''STATUS:'' @ (if isRegistered ev then ''CONFIRMED'' else ''TENTATIVE''),
                ''TRANSP:OPAQUE'', ''SEQUENCE:0'', ''END:VEVENT'']"
      (is "ls = ?pre @ ?post")
    by (auto simp: vevent_lines_def split: sum.splits)
  have "?pre \<noteq> []"
    by simp
  with ls show ?thesis
    by blast
qed

lemma foldLine_short: "length l \<le> 75 \<Longrightarrow> foldLine l = l"
  by (simp add: foldLine_def maxLength_def)

text \<open>
  C10. A record whose \<open>event_registered\<close> is \<open>'absent'\<close> is normalized with
  \<open>isRegistered = true\<close>, and every VEVENT generated for that event carries the line
  \<open>STATUS:CONFIRMED\<close> (followed by the transparency, the sequence number and the end of
  the component).
\<close>

theorem absent_is_registered_confirmed:
  assumes absent: "event_registered raw = Some ''absent''"
    and ev: "transformEvent h raw prefix = Inr ev"
  shows "isRegistered ev \<and>
     (\<forall>now doc. generateVEvent h now ev = Inr doc \<longrightarrow>
        (\<exists>pre. doc = pre @ CRLF @ ''STATUS:CONFIRMED'' @ CRLF @ ''TRANSP:OPAQUE'' @ CRLF @
                  ''SEQUENCE:0'' @ CRLF @ ''END:VEVENT''))"
proof (intro conjI allI impI)
  show reg: "isRegistered ev"
    using transformEvent_isRegistered [OF ev] absent by (simp add: is_registered_raw_def)
  fix now doc
  assume doc: "generateVEvent h now ev = Inr doc"
  then obtain ls where ls: "vevent_lines h now ev = Inr ls"
    and d: "doc = js_join CRLF (map foldLine ls)"
    by (auto simp: generateVEvent_def split: sum.splits)
  from vevent_lines_status [OF ls] reg obtain pre where pre: "pre \<noteq> []"
    and eq: "ls = pre @ [''STATUS:CONFIRMED'', ''TRANSP:OPAQUE'', ''SEQUENCE:0'', ''END:VEVENT'']"
    by auto
  have "doc = js_join CRLF (map foldLine pre) @ CRLF @
      js_join CRLF (map foldLine [''STATUS:CONFIRMED'', ''TRANSP:OPAQUE'', ''SEQUENCE:0'', ''END:VEVENT''])"
    unfolding d eq map_append using pre by (intro js_join_append) simp_all
  also have "js_join CRLF (map foldLine [''STATUS:CONFIRMED'', ''TRANSP:OPAQUE'', ''SEQUENCE:0'', ''END:VEVENT''])
      = ''STATUS:CONFIRMED'' @ CRLF @ ''TRANSP:OPAQUE'' @ CRLF @ ''SEQUENCE:0'' @ CRLF @ ''END:VEVENT''"
    by (simp add: foldLine_short)
  finally show "\<exists>pre. doc = pre @ CRLF @ ''STATUS:CONFIRMED'' @ CRLF @ ''TRANSP:OPAQUE'' @ CRLF @
                  ''SEQUENCE:0'' @ CRLF @ ''END:VEVENT''"
    by blast
qed

lemma generateVEvent_stamp_cong:
  assumes "toIcsDateTime h now1 = toIcsDateTime h now2"
  shows "generateVEvent h now1 e = generateVEvent h now2 e"
  using assms by (simp add: generateVEvent_def vevent_lines_def)

lemma generateVEvents_clock_cong:
  assumes "\<forall>i<length evs. toIcsDateTime h (MkDate (Some (c1 (k + i))))
      = toIcsDateTime h (MkDate (Some (c2 (k + i))))"
  shows "generateVEvents h c1 k evs = generateVEvents h c2 k evs"
  using assms
proof (induction evs arbitrary: k)
  case Nil
  show ?case by simp
next
  case (Cons e evs)
  have head: "generateVEvent h (MkDate (Some (c1 k))) e = generateVEvent h (MkDate (Some (c2 k))) e"
  proof (rule generateVEvent_stamp_cong)
    have "0 < length (e # evs)" by simp
    with Cons.prems have "toIcsDateTime h (MkDate (Some (c1 (k + 0))))
      = toIcsDateTime h (MkDate (Some (c2 (k + 0))))" by blast
    then show "toIcsDateTime h (MkDate (Some (c1 k))) = toIcsDateTime h (MkDate (Some (c2 k)))"
      by simp
  qed
  have "\<forall>i<length evs. toIcsDateTime h (MkDate (Some (c1 (Suc k + i))))
      = toIcsDateTime h (MkDate (Some (c2 (Suc k + i))))"
  proof (intro allI impI)
    fix i assume "i < length evs"
    then have "Suc i < length (e # evs)" by simp
    with Cons.prems have "toIcsDateTime h (MkDate (Some (c1 (k + Suc i))))
      = toIcsDateTime h (MkDate (Some (c2 (k + Suc i))))" by blast
    then show "toIcsDateTime h (MkDate (Some (c1 (Suc k + i))))
      = toIcsDateTime h (MkDate (Some (c2 (Suc k + i))))" by simp
  qed
  from Cons.IH [OF this] head show ?case
    by (simp only: generateVEvents.simps)
qed

text \<open>
  C7, amended. The document depends on the time of the call through the \<open>DTSTAMP\<close>
  lines only: two calls with the same list of events whose clock readings format to the
  same local date and time, event by event, produce the same document (or fail with the
  same error).
\<close>

theorem generateIcsContent_same_stamps:
  assumes "\<forall>k<length events. toIcsDateTime h (MkDate (Some (clock1 k)))
      = toIcsDateTime h (MkDate (Some (clock2 k)))"
  shows "generateIcsContent h clock1 events = generateIcsContent h clock2 events"
proof -
  have "generateVEvents h clock1 0 events = generateVEvents h clock2 0 events"
    using assms by (intro generateVEvents_clock_cong) simp
  then show ?thesis
    by (simp add: generateIcsContent_def)
qed

lemma sample_event_stamps:
  "toIcsDateTime cet (startDate sample_event) = Inr ''20250301T100000''"
  "toIcsDateTime cet (endDate sample_event) = Inr ''20250301T110000''"
  by (simp add: sample_event_def, code_simp)+

text \<open>
  C7, as stated, fails: \<open>generateVEvent\<close> stamps every event with \<open>new Date()\<close>, so two
  calls with the same list, made one second apart, give different documents.
\<close>

theorem generateIcsContent_clock_counterexample:
  "generateIcsContent cet (\<lambda>k. 0) [sample_event] \<noteq> generateIcsContent cet (\<lambda>k. 1000) [sample_event]"
proof -
  have s0: "toIcsDateTime cet (MkDate (Some 0)) = Inr ''19700101T010000''"
    by code_simp
  have s1: "toIcsDateTime cet (MkDate (Some 1000)) = Inr ''19700101T010001''"
    by code_simp
  have f0: "foldLine ''DTSTAMP:19700101T010000'' = ''DTSTAMP:19700101T010000''"
    by (simp add: foldLine_def maxLength_def)
  have f1: "foldLine ''DTSTAMP:19700101T010001'' = ''DTSTAMP:19700101T010001''"
    by (simp add: foldLine_def maxLength_def)
  show ?thesis
    by (simp add: generateIcsContent_def generateVEvent_def vevent_lines_def s0 s1
        sample_event_stamps f0 f1)
qed

theorem generateIcsContent_same_stamps_witness:
  "generateIcsContent cet (\<lambda>k. 0) [sample_event] = generateIcsContent cet (\<lambda>k. 999) [sample_event]"
proof -
  have "toIcsDateTime cet (MkDate (Some 0)) = toIcsDateTime cet (MkDate (Some 999))"
    by code_simp
  then have "\<forall>k<length [sample_event]. toIcsDateTime cet (MkDate (Some ((\<lambda>k. 0) k)))
      = toIcsDateTime cet (MkDate (Some ((\<lambda>k. 999) k)))"
    by simp
  from generateIcsContent_same_stamps [OF this] show ?thesis .
qed

theorem absent_is_registered_confirmed_witness:
  "event_registered sample_absent = Some ''absent'' \<and>
   (\<exists>ev doc. transformEvent cet sample_absent ''EPITECH - '' = Inr ev \<and> isRegistered ev \<and>
      generateVEvent cet (MkDate (Some 0)) ev = Inr doc \<and>
      (\<exists>pre. doc = pre @ CRLF @ ''STATUS:CONFIRMED'' @ CRLF @ ''TRANSP:OPAQUE'' @ CRLF @
                  ''SEQUENCE:0'' @ CRLF @ ''END:VEVENT''))"
proof -
  have a: "event_registered sample_absent = Some ''absent''"
    by (simp add: sample_absent_def)
  obtain ev where ev: "transformEvent cet sample_absent ''EPITECH - '' = Inr ev"
    by (simp add: transformEvent_def getRealTimeSlot_def sample_raw_def sample_absent_def
        isRdvEvent_def chosen_slot_def truthy_def at_index_def Let_def)
  have times: "startDate ev = parseEpitechDate cet ''2025-03-01 10:00:00''"
    "endDate ev = parseEpitechDate cet ''2025-03-01 11:00:00''"
    using transformEvent_window [OF ev]
    by (simp_all add: window_start_def window_end_def sample_raw_def sample_absent_def
        isRdvEvent_def chosen_slot_def truthy_def at_index_def)
  have s1: "toIcsDateTime cet (parseEpitechDate cet ''2025-03-01 10:00:00'') = Inr ''20250301T100000''"
    by code_simp
  have s2: "toIcsDateTime cet (parseEpitechDate cet ''2025-03-01 11:00:00'') = Inr ''20250301T110000''"
    by code_simp
  have s0: "toIcsDateTime cet (MkDate (Some 0)) = Inr ''19700101T010000''"
    by code_simp
  obtain doc where doc: "generateVEvent cet (MkDate (Some 0)) ev = Inr doc"
    by (simp add: generateVEvent_def vevent_lines_def times s0 s1 s2)
  from absent_is_registered_confirmed [OF a ev] doc show ?thesis
    using a ev by blast
qed


section \<open>Sync manager: properties\<close>

text \<open>An invocation that starts from the idle state, and whose first write of the status
  succeeds, leaves the guard idle when it completes, whether it resolves or rejects: the
  \<open>finally\<close> block clears the flag before anything in it can fail.\<close>

lemma finally_block_idle: "finally_block env w = (e, w') \<Longrightarrow> \<not> isSyncing w'"
  by (auto simp: finally_block_def updateSyncStatus_def split: option.splits)

lemma performSync_after_start:
  assumes "\<not> isSyncing w" and "status_write env AtStart = None"
  shows "\<not> isSyncing (snd (performSync env manual w))"
  using assms
  by (auto simp: performSync_def updateSyncStatus_def Let_def
      split: option.splits prod.splits dest: finally_block_idle)

text \<open>A request that arrives while a pass is running resolves at once with the result
  "Sync already in progress", all counts zero, and leaves the world as it was: no call to
  any collaborator (no fetch, no cache write, no calendar request), and the guard still
  held by the running pass.\<close>

lemma performSync_while_syncing:
  assumes "isSyncing w"
  shows "performSync env manual w = (Inr (already_in_progress env), w)"
    and "sync_errors (already_in_progress env) = [''Sync already in progress'']"
    and "\<not> success (already_in_progress env)"
    and "eventsProcessed (already_in_progress env) = 0"
    and "eventsCreated (already_in_progress env) = 0"
    and "eventsUpdated (already_in_progress env) = 0"
    and "eventsDeleted (already_in_progress env) = 0"
  using assms by (simp_all add: performSync_def already_in_progress_def)

text \<open>The assignment \<open>isSyncing = true\<close> and the first \<open>await updateSyncStatus(...)\<close> stand
  before the \<open>try\<close>. When that write is rejected, the invocation is rejected with the flag
  set and the \<open>finally\<close> block is never entered; from then on every request is answered
  "Sync already in progress".\<close>

lemma performSync_start_write_fails:
  assumes "\<not> isSyncing w" and "status_write env AtStart = Some e"
  shows "performSync env manual w
      = (Inl e, w \<lparr> isSyncing := True, calls := calls w @ [WriteStatus AtStart] \<rparr>)"
  using assms by (simp add: performSync_def updateSyncStatus_def)

lemma performSync_wedged:
  assumes "\<not> isSyncing w" and "status_write env AtStart = Some e"
  shows "performSync env' manual' (snd (performSync env manual w))
      = (Inr (already_in_progress env'), snd (performSync env manual w))"
  using assms
  by (simp add: performSync_start_write_fails [OF assms] performSync_while_syncing(1))

text \<open>
  C4. The claim: a request that arrives while a pass is running is rejected at once and
  does nothing, and after any invocation completes, success or failure, the guard is
  back in the idle state. The first part holds, and the \<open>try\<close> ... \<open>finally\<close> of the
  code is there for the second; but the first write of the status is not inside it. With
  a storage that rejects this write, an invocation from the idle state is rejected and
  leaves the guard in the syncing state, having called nothing but the write; the next
  request, against collaborators that all answer, is rejected as a pass in progress.
\<close>

theorem performSync_start_write_wedges_guard:
  "\<not> isSyncing idle_world
   \<and> (\<exists>w. performSync start_write_fails True idle_world
             = (Inl (Error ''QUOTA_BYTES quota exceeded''), w)
          \<and> isSyncing w
          \<and> calls w = [WriteStatus AtStart]
          \<and> performSync sample_sync_env True w
              = (Inr (already_in_progress sample_sync_env), w)
          \<and> sync_errors (already_in_progress sample_sync_env) = [''Sync already in progress''])"
proof -
  have idle: "\<not> isSyncing idle_world" and none: "calls idle_world = []"
    by (simp_all add: idle_world_def)
  have w: "status_write start_write_fails AtStart = Some (Error ''QUOTA_BYTES quota exceeded'')"
    by (simp add: start_write_fails_def)
  let ?w = "idle_world \<lparr> isSyncing := True, calls := calls idle_world @ [WriteStatus AtStart] \<rparr>"
  have run: "performSync start_write_fails True idle_world
      = (Inl (Error ''QUOTA_BYTES quota exceeded''), ?w)"
    by (rule performSync_start_write_fails [OF idle w])
  have held: "isSyncing ?w" and log: "calls ?w = [WriteStatus AtStart]"
    by (simp_all add: none)
  have later: "performSync sample_sync_env True ?w = (Inr (already_in_progress sample_sync_env), ?w)"
    by (rule performSync_while_syncing(1) [OF held])
  have "sync_errors (already_in_progress sample_sync_env) = [''Sync already in progress'']"
    by (simp add: already_in_progress_def)
  with idle run held log later show ?thesis
    by blast
qed


section \<open>Google Calendar adapter: properties\<close>

text \<open>
  C1. The claim: with A, B and C mirrored and B, C and D canonical, a pass creates D,
  updates B and C, deletes A, and reports created = 1, updated = 2, deleted = 1. The
  pass does send the three kinds of request, and the calendar ends with exactly B, C
  and D. But Google Calendar answers the delete with 204 and no body, \<open>googleApiRequest\<close>
  calls \<open>response.json()\<close> on it, and the rejection lands in the \<open>catch\<close> of the delete
  loop: the deletion is reported as an error and not counted.
\<close>

theorem syncToGoogleCalendar_delete_no_content:
  "map_prod id mirror_tags
     (syncToGoogleCalendar google connected_settings calendar_ABC
        [canonical id_B, canonical id_C, canonical id_D])
   = (Inr \<lparr> created = 1, updated = 2, deleted = 0,
            errors = [''Delete epitech-acti-1-event-1: Unexpected end of JSON input''] \<rparr>,
      [(''g2'', Some id_B), (''g3'', Some id_C), (''ggg'', Some id_D)])"
  by code_simp

text \<open>Against a service that answers the delete with a body, the same pass reports what
  the claim says.\<close>

lemma syncToGoogleCalendar_delete_with_body:
  "map_prod id mirror_tags
     (syncToGoogleCalendar google_with_body connected_settings calendar_ABC
        [canonical id_B, canonical id_C, canonical id_D])
   = (Inr \<lparr> created = 1, updated = 2, deleted = 1, errors = [] \<rparr>,
      [(''g2'', Some id_B), (''g3'', Some id_C), (''ggg'', Some id_D)])"
  by code_simp

section \<open>Google Calendar adapter: what a request returns\<close>

text \<open>With a token, a refused request throws the error of the refusal and leaves the
  calendar as it is; an insert, an update and a delete that are not refused change the
  calendar as the service says, and the list request returns the mirrored events page by
  page.\<close>

lemma auth_okE:
  assumes "auth_ok env"
  obtains t ts where "auth_token env = Some (t # ts)"
proof (cases "auth_token env")
  case None
  with assms show ?thesis by (simp add: auth_ok_def truthy_def)
next
  case (Some x)
  with assms that show ?thesis
    by (cases x) (simp_all add: auth_ok_def truthy_def)
qed

lemma refusal_status_not_ok: "\<not> response_ok (error_reply (refusal_status code) msg)"
  by (simp add: response_ok_def error_reply_def refusal_status_def)

lemma error_message_of_error_reply: "error_message_of (error_reply st msg) = msg"
  by (cases msg) (simp_all add: error_message_of_def error_reply_def)

lemma googleApiRequest_refused:
  assumes "auth_ok env" and "faults env req = Some f"
  shows "googleApiRequest env cal req = (Inl (refusal f), cal)"
proof -
  obtain code msg where f: "f = (code, msg)"
    by (cases f)
  obtain t ts where tok: "auth_token env = Some (t # ts)"
    using assms(1) by (rule auth_okE)
  have s: "serve env cal req = (error_reply (refusal_status code) msg, cal)"
    using assms(2) f by (simp add: serve_def)
  show ?thesis
    using refusal_status_not_ok [of code msg]
    by (simp add: googleApiRequest_def tok s f refusal_def error_message_of_error_reply)
      (simp add: error_reply_def)
qed

lemma googleApiRequest_insert:
  assumes "auth_ok env" and "faults env (InsertEvent cid b) = None"
  shows "googleApiRequest env cal (InsertEvent cid b)
     = (Inr (EventResource \<lparr> g_id = fresh_id cal, g_body = b \<rparr>), AList.update (fresh_id cal) b cal)"
proof -
  obtain t ts where tok: "auth_token env = Some (t # ts)"
    using assms(1) by (rule auth_okE)
  show ?thesis
    using assms(2)
    by (simp add: googleApiRequest_def tok serve_def ok_reply_def response_ok_def)
qed

lemma googleApiRequest_update:
  assumes "auth_ok env" and "faults env (UpdateEvent cid eid ev) = None"
    and "eid \<in> fst ` set cal"
  shows "googleApiRequest env cal (UpdateEvent cid eid ev)
     = (Inr (EventResource \<lparr> g_id = eid, g_body = g_body ev \<rparr>), AList.update eid (g_body ev) cal)"
proof -
  obtain t ts where tok: "auth_token env = Some (t # ts)"
    using assms(1) by (rule auth_okE)
  show ?thesis
    using assms(2,3)
    by (simp add: googleApiRequest_def tok serve_def ok_reply_def response_ok_def)
qed

lemma googleApiRequest_delete:
  assumes "auth_ok env" and "faults env (DeleteEvent cid eid) = None"
    and "eid \<in> fst ` set cal"
  shows "googleApiRequest env cal (DeleteEvent cid eid)
     = ((case delete_reply env of
           None \<Rightarrow> Inl (SyntaxError ''Unexpected end of JSON input'')
         | Some b \<Rightarrow> Inr b),
        AList.delete eid cal)"
proof -
  obtain t ts where tok: "auth_token env = Some (t # ts)"
    using assms(1) by (rule auth_okE)
  show ?thesis
    using assms(2,3)
    by (simp add: googleApiRequest_def tok serve_def ok_reply_def no_content_def response_ok_def
        split: option.splits)
qed

lemma googleApiRequest_list:
  assumes "auth_ok env" and "faults env (list_request cid tok) = None"
  shows "googleApiRequest env cal (list_request cid tok)
     = (Inr (EventsPage
          (take 2500 (drop (case tok of None \<Rightarrow> 0 | Some t \<Rightarrow> t) (listed env cal)))
          (if (case tok of None \<Rightarrow> 0 | Some t \<Rightarrow> t) + 2500 < length (listed env cal)
           then Some ((case tok of None \<Rightarrow> 0 | Some t \<Rightarrow> t) + 2500) else None)), cal)"
proof -
  obtain t ts where tk: "auth_token env = Some (t # ts)"
    using assms(1) by (rule auth_okE)
  show ?thesis
    using assms(2)
    by (simp add: googleApiRequest_def tk serve_def ok_reply_def response_ok_def
        list_request_def listed_def Let_def)
qed

text \<open>Page by page, the loop of \<open>getExistingEvents\<close> builds the \<open>Map\<close> of all the events
  the list request matches.\<close>

lemma add_page_append: "add_page (xs @ ys) m = add_page ys (add_page xs m)"
  by (simp add: add_page_def)

lemma getExistingEvents_loop_all:
  assumes auth: "auth_ok env"
    and nofault: "\<And>tok. faults env (list_request cid tok) = None"
  shows "getExistingEvents_loop env cal cid events tok
     = (Inr (add_page (drop (case tok of None \<Rightarrow> 0 | Some t \<Rightarrow> t) (listed env cal)) events), cal)"
  using auth nofault
proof (induction env cal cid events tok rule: getExistingEvents_loop.induct)
  case (1 env cal calId events pageToken)
  let ?off = "case pageToken of None \<Rightarrow> 0 | Some t \<Rightarrow> t"
  let ?page = "take 2500 (drop ?off (listed env cal))"
  let ?next = "if ?off + 2500 < length (listed env cal) then Some (?off + 2500) else None"
  have req: "googleApiRequest env cal (list_request calId pageToken)
      = (Inr (EventsPage ?page ?next), cal)"
    using "1.prems" by (intro googleApiRequest_list) simp_all
  show ?case
  proof (cases "?off + 2500 < length (listed env cal)")
    case True
    have "getExistingEvents_loop env cal calId events pageToken
        = getExistingEvents_loop env cal calId (add_page ?page events) (Some (?off + 2500))"
      using True
      by (subst getExistingEvents_loop.simps) (simp add: req page_items_def nextPageToken_def)
    also have "\<dots> = (Inr (add_page (drop (?off + 2500) (listed env cal)) (add_page ?page events)), cal)"
      using "1.IH" [of "Inr (EventsPage ?page ?next)" cal "EventsPage ?page ?next"
          "add_page ?page events" "?off + 2500"] req True "1.prems"
      by (simp add: page_items_def nextPageToken_def)
    also have "add_page (drop (?off + 2500) (listed env cal)) (add_page ?page events)
        = add_page (?page @ drop (?off + 2500) (listed env cal)) events"
      by (simp add: add_page_append)
    also have "?page @ drop (?off + 2500) (listed env cal) = drop ?off (listed env cal)"
      by (metis add.commute append_take_drop_id drop_drop)
    finally show ?thesis .
  next
    case False
    have "getExistingEvents_loop env cal calId events pageToken = (Inr (add_page ?page events), cal)"
      using False
      by (subst getExistingEvents_loop.simps) (simp add: req page_items_def nextPageToken_def)
    moreover have "?page = drop ?off (listed env cal)"
      using False by simp
    ultimately show ?thesis
      by simp
  qed
qed

lemma getExistingEvents_all:
  assumes "auth_ok env" and "\<And>tok. faults env (list_request cid tok) = None"
  shows "getExistingEvents env cal cid = (Inr (existing_of env cal), cal)"
  using getExistingEvents_loop_all [OF assms, of cal "[]" None]
  by (simp add: getExistingEvents_def existing_of_def)

section \<open>Reconciliation: the two loops\<close>

text \<open>One round of the first loop, for an event with valid dates: the request is an
  insert or an update, the calendar changes when the service accepts it, and the result
  counts it or records the error.\<close>

lemma toGoogleEvent_tag:
  "toGoogleEvent e = Inr b \<Longrightarrow> epitechId_of b = Some (event_id e)"
  by (auto simp: toGoogleEvent_def epitechId_of_def split: sum.splits)

lemma fresh_id_bound: "p \<in> set cal \<Longrightarrow> length (fst p) \<le> foldr (\<lambda>p n. max (length (fst p)) n) cal 0"
  by (induction cal) auto

lemma fresh_id_fresh: "fresh_id cal \<notin> fst ` set cal"
proof
  assume "fresh_id cal \<in> fst ` set cal"
  then obtain p where p: "p \<in> set cal" and eq: "fst p = fresh_id cal"
    by auto
  from fresh_id_bound [OF p] have "length (fst p) < length (fresh_id cal)"
    by (simp add: fresh_id_def)
  with eq show False by simp
qed

lemma tag_of_present: "tag_of cal i = Some k \<Longrightarrow> i \<in> fst ` set cal"
  by (auto simp: tag_of_def split: option.splits dest: map_of_SomeD intro: rev_image_eqI)

lemma sync_event_step:
  assumes auth: "auth_ok env"
    and body: "toGoogleEvent e = Inr b"
    and present: "entries_present ex cal"
  shows "sync_event env cid ex e (cal, res, P)
     = (None, step_cal env cid ex e cal,
        (if accepted env cid ex e
         then (if is_new ex e then res \<lparr> created := created res + 1 \<rparr>
               else res \<lparr> updated := updated res + 1 \<rparr>)
         else res \<lparr> errors := errors res @ [upsert_error env cid ex e] \<rparr>),
        insert (event_id e) P)"
proof (cases "map_of ex (event_id e)")
  case None
  show ?thesis
  proof (cases "faults env (InsertEvent cid b)")
    case n: None
    then show ?thesis
      using None body googleApiRequest_insert [OF auth n, of cal]
      by (simp add: sync_event_def step_cal_def accepted_def is_new_def upsert_request_def)
  next
    case (Some f)
    then show ?thesis
      using None body googleApiRequest_refused [OF auth Some, of cal]
      by (simp add: sync_event_def step_cal_def accepted_def is_new_def upsert_request_def
          upsert_error_def)
  qed
next
  case (Some g)
  then have "(event_id e, g) \<in> set ex"
    by (rule map_of_SomeD)
  with present have "tag_of cal (g_id g) = Some (event_id e)"
    by (auto simp: entries_present_def)
  then have here: "g_id g \<in> fst ` set cal"
    by (rule tag_of_present)
  let ?req = "UpdateEvent cid (g_id g) \<lparr> g_id = g_id g, g_body = b \<rparr>"
  show ?thesis
  proof (cases "faults env ?req")
    case n: None
    then show ?thesis
      using Some body googleApiRequest_update [OF auth n here, of ]
      by (simp add: sync_event_def step_cal_def accepted_def is_new_def upsert_request_def)
  next
    case f: (Some f)
    then show ?thesis
      using Some body googleApiRequest_refused [OF auth f, of cal]
      by (simp add: sync_event_def step_cal_def accepted_def is_new_def upsert_request_def
          upsert_error_def)
  qed
qed

text \<open>The first loop keeps the tag of every event the calendar had, gives each event it
  creates a new id, and never aborts when the dates are valid.\<close>

lemma tag_of_update:
  "tag_of (AList.update j b cal) i = (if i = j then epitechId_of b else tag_of cal i)"
  by (simp add: tag_of_def update_conv')

lemma keys_update: "fst ` set (AList.update j b cal) = insert j (fst ` set cal)"
  by (simp add: dom_update)

lemma in_keys_not_fresh: "i \<in> fst ` set cal \<Longrightarrow> i \<noteq> fresh_id cal"
proof
  assume "i \<in> fst ` set cal" and "i = fresh_id cal"
  then have "fresh_id cal \<in> fst ` set cal" by simp
  with fresh_id_fresh [of cal] show False by simp
qed

lemma step_cal_tag_of:
  assumes "entries_present ex cal"
  shows "tag_of (step_cal env cid ex e cal) i
     = (if accepted env cid ex e \<and> is_new ex e \<and> i = fresh_id cal then Some (event_id e)
        else tag_of cal i)"
proof (cases "toGoogleEvent e")
  case (Inl err)
  then show ?thesis
    by (simp add: step_cal_def accepted_def)
next
  case (Inr b)
  note tag = toGoogleEvent_tag [OF Inr]
  show ?thesis
  proof (cases "map_of ex (event_id e)")
    case None
    then show ?thesis
      using Inr tag by (simp add: step_cal_def accepted_def is_new_def tag_of_update)
  next
    case (Some g)
    then have "(event_id e, g) \<in> set ex"
      by (rule map_of_SomeD)
    with assms have "tag_of cal (g_id g) = Some (event_id e)"
      by (auto simp: entries_present_def)
    then show ?thesis
      using Inr tag Some by (simp add: step_cal_def accepted_def is_new_def tag_of_update)
  qed
qed

lemma step_cal_keys:
  assumes "entries_present ex cal"
  shows "fst ` set (step_cal env cid ex e cal)
     = (if accepted env cid ex e \<and> is_new ex e then insert (fresh_id cal) (fst ` set cal)
        else fst ` set cal)"
proof (cases "toGoogleEvent e")
  case (Inl err)
  then show ?thesis
    by (simp add: step_cal_def accepted_def)
next
  case (Inr b)
  show ?thesis
  proof (cases "map_of ex (event_id e)")
    case None
    then show ?thesis
      using Inr by (simp add: step_cal_def accepted_def is_new_def keys_update)
  next
    case (Some g)
    then have "(event_id e, g) \<in> set ex"
      by (rule map_of_SomeD)
    with assms have "tag_of cal (g_id g) = Some (event_id e)"
      by (auto simp: entries_present_def)
    then have "g_id g \<in> fst ` set cal"
      by (rule tag_of_present)
    then show ?thesis
      using Inr Some by (auto simp: step_cal_def accepted_def is_new_def keys_update)
  qed
qed


lemma step_cal_present:
  assumes "entries_present ex cal"
  shows "entries_present ex (step_cal env cid ex e cal)"
  unfolding entries_present_def
proof
  fix p assume "p \<in> set ex"
  with assms have t: "tag_of cal (g_id (snd p)) = Some (fst p)"
    by (simp add: entries_present_def)
  then have "g_id (snd p) \<in> fst ` set cal"
    by (rule tag_of_present)
  then have "g_id (snd p) \<noteq> fresh_id cal"
    by (rule in_keys_not_fresh)
  then show "tag_of (step_cal env cid ex e cal) (g_id (snd p)) = Some (fst p)"
    by (simp add: step_cal_tag_of [OF assms] t)
qed

lemma fold_step_present:
  "entries_present ex cal \<Longrightarrow> entries_present ex (fold (step_cal env cid ex) es cal)"
  by (induction es arbitrary: cal) (simp_all add: step_cal_present)


lemma fold_step_keys:
  "entries_present ex cal \<Longrightarrow> fst ` set cal \<subseteq> fst ` set (fold (step_cal env cid ex) es cal)"
proof (induction es arbitrary: cal)
  case Nil
  show ?case by simp
next
  case (Cons e es)
  have "fst ` set cal \<subseteq> fst ` set (step_cal env cid ex e cal)"
    by (auto simp: step_cal_keys [OF Cons.prems])
  also have "\<dots> \<subseteq> fst ` set (fold (step_cal env cid ex) es (step_cal env cid ex e cal))"
    by (rule Cons.IH) (rule step_cal_present [OF Cons.prems])
  finally show ?case by simp
qed




lemma sync_events_forward:
  assumes auth: "auth_ok env"
    and valid: "list_all valid_dates es"
    and present: "entries_present ex cal"
  shows "\<exists>res'. sync_events env cid ex es (cal, res, P)
        = (None, fold (step_cal env cid ex) es cal, res', P \<union> event_id ` set es)
      \<and> created res' = created res
          + length (filter (\<lambda>e. is_new ex e \<and> accepted env cid ex e) es)
      \<and> updated res' = updated res
          + length (filter (\<lambda>e. \<not> is_new ex e \<and> accepted env cid ex e) es)
      \<and> deleted res' = deleted res
      \<and> errors res' = errors res
          @ map (upsert_error env cid ex) (filter (\<lambda>e. \<not> accepted env cid ex e) es)"
  using valid present
proof (induction es arbitrary: cal res P)
  case Nil
  show ?case by simp
next
  case (Cons e es)
  from Cons.prems(1) obtain b where b: "toGoogleEvent e = Inr b"
    by (auto simp: valid_dates_def split: sum.splits)
  let ?cal = "step_cal env cid ex e cal"
  let ?res = "if accepted env cid ex e
         then (if is_new ex e then res \<lparr> created := created res + 1 \<rparr>
               else res \<lparr> updated := updated res + 1 \<rparr>)
         else res \<lparr> errors := errors res @ [upsert_error env cid ex e] \<rparr>"
  have step: "sync_event env cid ex e (cal, res, P)
      = (None, ?cal, ?res, insert (event_id e) P)"
    by (rule sync_event_step [OF auth b Cons.prems(2)])
  have valid': "list_all valid_dates es"
    using Cons.prems(1) by simp
  from Cons.IH [OF valid' step_cal_present [OF Cons.prems(2)],
      where res = ?res and P = "insert (event_id e) P"]
  obtain res' where
    run: "sync_events env cid ex es (?cal, ?res, insert (event_id e) P)
        = (None, fold (step_cal env cid ex) es ?cal, res', insert (event_id e) P \<union> event_id ` set es)"
    and c: "created res' = created ?res
          + length (filter (\<lambda>e. is_new ex e \<and> accepted env cid ex e) es)"
    and u: "updated res' = updated ?res
          + length (filter (\<lambda>e. \<not> is_new ex e \<and> accepted env cid ex e) es)"
    and d: "deleted res' = deleted ?res"
    and er: "errors res' = errors ?res
          @ map (upsert_error env cid ex) (filter (\<lambda>e. \<not> accepted env cid ex e) es)"
    by blast
  have "sync_events env cid ex (e # es) (cal, res, P)
      = (None, fold (step_cal env cid ex) (e # es) cal, res', P \<union> event_id ` set (e # es))"
    using step run by simp
  moreover have "created res' = created res
          + length (filter (\<lambda>e. is_new ex e \<and> accepted env cid ex e) (e # es))"
    using c by simp
  moreover have "updated res' = updated res
          + length (filter (\<lambda>e. \<not> is_new ex e \<and> accepted env cid ex e) (e # es))"
    using u by simp
  moreover have "deleted res' = deleted res"
    using d by simp
  moreover have "errors res' = errors res
          @ map (upsert_error env cid ex) (filter (\<lambda>e. \<not> accepted env cid ex e) (e # es))"
    using er by simp
  ultimately show ?case
    by blast
qed

text \<open>The second loop sends a delete for every entry of the \<open>Map\<close> whose id was not
  processed. A delete that the service answers with no content is recorded as an error,
  although the event is gone.\<close>

lemma keys_delete: "fst ` set (AList.delete j cal) = fst ` set cal - {j}"
  by (induction cal) (auto simp: AList.delete_eq)

lemma delete_cal_keys:
  "fst ` set (delete_cal env cid p cal)
     = (if delete_refused env cid p then fst ` set cal else fst ` set cal - {g_id (snd p)})"
  by (simp add: delete_cal_def keys_delete)


lemma delete_step:
  assumes auth: "auth_ok env" and here: "g_id g \<in> fst ` set cal"
  shows "googleApiRequest env cal (DeleteEvent cid (g_id g))
     = ((if delete_refused env cid (k, g)
         then Inl (refusal (case faults env (DeleteEvent cid (g_id g)) of
                              Some f \<Rightarrow> f | None \<Rightarrow> (0, [])))
         else (case delete_reply env of
                 None \<Rightarrow> Inl (SyntaxError ''Unexpected end of JSON input'')
               | Some b \<Rightarrow> Inr b)),
        delete_cal env cid (k, g) cal)"
proof (cases "faults env (DeleteEvent cid (g_id g))")
  case None
  then show ?thesis
    using googleApiRequest_delete [OF auth None here]
    by (simp add: delete_refused_def delete_cal_def)
next
  case (Some f)
  then show ?thesis
    using googleApiRequest_refused [OF auth Some, of cal]
    by (simp add: delete_refused_def delete_cal_def)
qed

lemma delete_loop_forward:
  assumes auth: "auth_ok env"
    and here: "\<forall>p \<in> set (stale P ex). g_id (snd p) \<in> fst ` set cal"
    and dist: "distinct (map (\<lambda>p. g_id (snd p)) (stale P ex))"
  shows "\<exists>res'. delete_loop env cid P ex (cal, res)
        = (fold (delete_cal env cid) (stale P ex) cal, res')
      \<and> created res' = created res \<and> updated res' = updated res
      \<and> deleted res' = deleted res
          + (if delete_reply env = None then 0
             else length (filter (\<lambda>p. \<not> delete_refused env cid p) (stale P ex)))
      \<and> errors res' = errors res
          @ map (delete_error env cid)
              (filter (\<lambda>p. delete_refused env cid p \<or> delete_reply env = None) (stale P ex))"
  using here dist
proof (induction ex arbitrary: cal res)
  case Nil
  show ?case by (simp add: stale_def)
next
  case (Cons p ex)
  obtain k g where p: "p = (k, g)"
    by (cases p)
  show ?case
  proof (cases "k \<in> P")
    case True
    then have st: "stale P (p # ex) = stale P ex"
      by (simp add: stale_def p)
    have unfold: "delete_loop env cid P (p # ex) (cal, res) = delete_loop env cid P ex (cal, res)"
      using True by (simp add: p)
    have "\<forall>p \<in> set (stale P ex). g_id (snd p) \<in> fst ` set cal"
      and "distinct (map (\<lambda>p. g_id (snd p)) (stale P ex))"
      using Cons.prems st by simp_all
    from Cons.IH [OF this, of res] show ?thesis
      unfolding unfold st .
  next
    case False
    then have st: "stale P (p # ex) = p # stale P ex"
      by (simp add: stale_def p)
    have g_here: "g_id g \<in> fst ` set cal"
      using Cons.prems(1) st p by simp
    note step = delete_step [OF auth g_here, of cid k]
    let ?cal = "delete_cal env cid p cal"
    have rest_here: "\<forall>q \<in> set (stale P ex). g_id (snd q) \<in> fst ` set ?cal"
    proof
      fix q assume q: "q \<in> set (stale P ex)"
      then have "g_id (snd q) \<in> fst ` set cal"
        using Cons.prems(1) st by simp
      moreover have "g_id (snd q) \<noteq> g_id (snd p)"
      proof
        assume "g_id (snd q) = g_id (snd p)"
        with q have "g_id (snd p) \<in> (\<lambda>p. g_id (snd p)) ` set (stale P ex)"
          by (metis (mono_tags, lifting) imageI)
        with Cons.prems(2) st show False
          by simp
      qed
      ultimately show "g_id (snd q) \<in> fst ` set ?cal"
        by (simp add: delete_cal_keys)
    qed
    have rest_dist: "distinct (map (\<lambda>p. g_id (snd p)) (stale P ex))"
      using Cons.prems(2) st by simp
    let ?res = "if delete_refused env cid p \<or> delete_reply env = None
        then res \<lparr> errors := errors res @ [delete_error env cid p] \<rparr>
        else res \<lparr> deleted := deleted res + 1 \<rparr>"
    have unfold: "delete_loop env cid P (p # ex) (cal, res)
        = delete_loop env cid P ex (?cal, ?res)"
      using False step
      by (auto simp: p delete_error_def delete_refused_def refusal_def split: option.splits)
    from Cons.IH [OF rest_here rest_dist, of ?res]
    obtain res' where
      run: "delete_loop env cid P ex (?cal, ?res) = (fold (delete_cal env cid) (stale P ex) ?cal, res')"
      and c: "created res' = created ?res" and u: "updated res' = updated ?res"
      and d: "deleted res' = deleted ?res
          + (if delete_reply env = None then 0
             else length (filter (\<lambda>p. \<not> delete_refused env cid p) (stale P ex)))"
      and e: "errors res' = errors ?res
          @ map (delete_error env cid)
              (filter (\<lambda>p. delete_refused env cid p \<or> delete_reply env = None) (stale P ex))"
      by blast
    have "delete_loop env cid P (p # ex) (cal, res)
        = (fold (delete_cal env cid) (stale P (p # ex)) cal, res')"
      using unfold run st by simp
    moreover have "created res' = created res" "updated res' = updated res"
      using c u by simp_all
    moreover have "deleted res' = deleted res
          + (if delete_reply env = None then 0
             else length (filter (\<lambda>p. \<not> delete_refused env cid p) (stale P (p # ex))))"
      using d st by simp
    moreover have "errors res' = errors res
          @ map (delete_error env cid)
              (filter (\<lambda>p. delete_refused env cid p \<or> delete_reply env = None) (stale P (p # ex)))"
      using e st by simp
    ultimately show ?thesis
      by blast
  qed
qed

section \<open>Reconciliation: the map of existing events\<close>

text \<open>The \<open>Map\<close> holds one entry for every id that tags a mirrored event of the calendar,
  and every entry is an event of the calendar with that tag.\<close>

lemma set_update_subset: "p \<in> set (AList.update k v al) \<Longrightarrow> p = (k, v) \<or> p \<in> set al"
  by (induction al) (auto split: if_splits)

lemma add_page_entries:
  "p \<in> set (add_page xs m) \<Longrightarrow>
     p \<in> set m \<or> (snd p \<in> set xs \<and> epitechId_of (g_body (snd p)) = Some (fst p))"
proof (induction xs arbitrary: m)
  case Nil
  then show ?case by (simp add: add_page_def)
next
  case (Cons x xs)
  let ?m = "if truthy (epitechId_of (g_body x))
      then map_set (case epitechId_of (g_body x) of None \<Rightarrow> [] | Some i \<Rightarrow> i) x m else m"
  have unfold: "add_page (x # xs) m = add_page xs ?m"
    by (simp add: add_page_def)
  from Cons.prems have "p \<in> set (add_page xs ?m)"
    by (simp add: unfold)
  from Cons.IH [OF this] show ?case
  proof
    assume "p \<in> set ?m"
    then have "p \<in> set m \<or> (snd p = x \<and> epitechId_of (g_body x) = Some (fst p))"
      by (auto simp: map_set_def truthy_def split: if_splits option.splits
          dest!: set_update_subset)
    then show ?thesis by auto
  next
    assume "snd p \<in> set xs \<and> epitechId_of (g_body (snd p)) = Some (fst p)"
    then show ?thesis by simp
  qed
qed



lemma add_page_distinct:
  "distinct (map fst m) \<Longrightarrow> distinct (map fst (add_page xs m))"
proof (induction xs arbitrary: m)
  case Nil
  then show ?case by (simp add: add_page_def)
next
  case (Cons x xs)
  let ?m = "if truthy (epitechId_of (g_body x))
      then map_set (case epitechId_of (g_body x) of None \<Rightarrow> [] | Some i \<Rightarrow> i) x m else m"
  have unfold: "add_page (x # xs) m = add_page xs ?m"
    by (simp add: add_page_def)
  have "distinct (map fst ?m)"
    using Cons.prems by (simp add: map_set_def distinct_update)
  from Cons.IH [OF this] show ?case
    by (simp add: unfold)
qed


lemma listed_entries:
  assumes "g \<in> set (listed env cal)"
  shows "(g_id g, g_body g) \<in> set cal"
proof -
  from assms obtain p where "p \<in> set cal" "g = as_event p"
    by (auto simp: listed_def matching_def)
  then show ?thesis
    by (simp add: as_event_def)
qed



lemma existing_entries:
  assumes "p \<in> set (existing_of env cal)"
  shows "(g_id (snd p), g_body (snd p)) \<in> set cal
       \<and> epitechId_of (g_body (snd p)) = Some (fst p)"
proof -
  from add_page_entries [OF assms [unfolded existing_of_def]]
  have "snd p \<in> set (listed env cal)" and t: "epitechId_of (g_body (snd p)) = Some (fst p)"
    by simp_all
  then show ?thesis
    by (simp add: listed_entries)
qed



lemma existing_distinct: "distinct (map fst (existing_of env cal))"
  unfolding existing_of_def by (rule add_page_distinct) simp

lemma tag_of_distinct:
  assumes "distinct (map fst cal)"
  shows "tag_of cal i = Some k \<longleftrightarrow> (\<exists>b. (i, b) \<in> set cal \<and> epitechId_of b = Some k)"
proof -
  have "tag_of cal i = Some k \<longleftrightarrow> (\<exists>b. map_of cal i = Some b \<and> epitechId_of b = Some k)"
    by (simp add: tag_of_def split: option.splits)
  then show ?thesis
    by (simp add: map_of_eq_Some_iff [OF assms])
qed

lemma existing_present:
  assumes "distinct (map fst cal)"
  shows "entries_present (existing_of env cal) cal"
  unfolding entries_present_def
proof
  fix p assume "p \<in> set (existing_of env cal)"
  from existing_entries [OF this] show "tag_of cal (g_id (snd p)) = Some (fst p)"
    by (auto simp: tag_of_distinct [OF assms])
qed


lemma entries_gid_inj:
  assumes "entries_present ex cal" and "p \<in> set ex" and "q \<in> set ex"
    and "g_id (snd p) = g_id (snd q)"
  shows "fst p = fst q"
proof -
  from assms(1,2) have "tag_of cal (g_id (snd p)) = Some (fst p)"
    by (simp add: entries_present_def)
  moreover from assms(1,3) have "tag_of cal (g_id (snd q)) = Some (fst q)"
    by (simp add: entries_present_def)
  ultimately show ?thesis
    using assms(4) by simp
qed

lemma stale_gids_distinct:
  assumes "entries_present ex cal" and "distinct (map fst ex)"
  shows "distinct (map (\<lambda>p. g_id (snd p)) (stale P ex))"
proof -
  have d: "distinct (stale P ex)"
    using assms(2) by (simp add: stale_def distinct_map)
  have "inj_on (\<lambda>p. g_id (snd p)) (set (stale P ex))"
  proof (rule inj_onI)
    fix p q assume p: "p \<in> set (stale P ex)" and q: "q \<in> set (stale P ex)"
      and eq: "g_id (snd p) = g_id (snd q)"
    then have pq: "p \<in> set ex" "q \<in> set ex"
      by (simp_all add: stale_def)
    from entries_gid_inj [OF assms(1) pq eq] have "fst p = fst q" .
    with assms(2) pq show "p = q"
      by (metis eq_key_imp_eq_value prod.collapse)
  qed
  with d show ?thesis
    by (simp add: distinct_map)
qed

section \<open>Reconciliation: the calendar after the loops\<close>

text \<open>An event the first loop writes is not overwritten by a later round, and the second
  loop removes exactly the events it deletes.\<close>

lemma keys_dom: "fst ` set cal = dom (map_of cal)"
  by (simp add: dom_map_of_conv_image_fst)

lemma step_cal_map_of_other:
  assumes "i \<in> fst ` set cal"
    and "\<forall>g. map_of ex (event_id e) = Some g \<longrightarrow> g_id g \<noteq> i"
  shows "map_of (step_cal env cid ex e cal) i = map_of cal i"
proof -
  have "i \<noteq> fresh_id cal"
    using assms(1) by (rule in_keys_not_fresh)
  with assms(2) show ?thesis
    by (auto simp: step_cal_def update_conv' split: sum.splits option.splits)
qed

lemma step_cal_keys_mono:
  "entries_present ex cal \<Longrightarrow> fst ` set cal \<subseteq> fst ` set (step_cal env cid ex e cal)"
  by (auto simp: step_cal_keys)

lemma fold_step_keep:
  assumes "entries_present ex cal" and "i \<in> fst ` set cal"
    and "\<forall>e \<in> set es. \<forall>g. map_of ex (event_id e) = Some g \<longrightarrow> g_id g \<noteq> i"
  shows "map_of (fold (step_cal env cid ex) es cal) i = map_of cal i"
  using assms
proof (induction es arbitrary: cal)
  case Nil
  show ?case by simp
next
  case (Cons e es)
  let ?cal = "step_cal env cid ex e cal"
  have other: "\<forall>g. map_of ex (event_id e) = Some g \<longrightarrow> g_id g \<noteq> i"
    using Cons.prems(3) by simp
  have one: "map_of ?cal i = map_of cal i"
    by (rule step_cal_map_of_other [OF Cons.prems(2) other])
  have p: "entries_present ex ?cal"
    by (rule step_cal_present [OF Cons.prems(1)])
  have k: "i \<in> fst ` set ?cal"
    using Cons.prems(2) step_cal_keys_mono [OF Cons.prems(1)] by blast
  have rest: "\<forall>e \<in> set es. \<forall>g. map_of ex (event_id e) = Some g \<longrightarrow> g_id g \<noteq> i"
    using Cons.prems(3) by simp
  from Cons.IH [OF p k rest] one show ?case
    by simp
qed

lemma entry_key_present:
  assumes "entries_present ex cal" and "map_of ex k = Some g"
  shows "g_id g \<in> fst ` set cal"
proof -
  from assms(2) have "(k, g) \<in> set ex"
    by (rule map_of_SomeD)
  with assms(1) have "tag_of cal (g_id g) = Some k"
    by (auto simp: entries_present_def)
  then show ?thesis
    by (rule tag_of_present)
qed

lemma entry_key_inj:
  assumes "entries_present ex cal" and "map_of ex k = Some g" and "map_of ex k' = Some g'"
    and "g_id g = g_id g'"
  shows "k = k'"
proof -
  from assms(2,3) have "(k, g) \<in> set ex" "(k', g') \<in> set ex"
    by (auto dest: map_of_SomeD)
  from entries_gid_inj [OF assms(1) this] assms(4) show ?thesis
    by simp
qed

lemma step_cal_written:
  assumes "accepted env cid ex e" and "toGoogleEvent e = Inr bd"
  shows "map_of (step_cal env cid ex e cal)
           (case map_of ex (event_id e) of None \<Rightarrow> fresh_id cal | Some g \<Rightarrow> g_id g) = Some bd"
  using assms by (simp add: step_cal_def accepted_def update_conv')

lemma fold_step_body:
  assumes "entries_present ex cal" and "distinct (map event_id es)" and "e \<in> set es"
    and "accepted env cid ex e" and "toGoogleEvent e = Inr bd"
  shows "\<exists>i. map_of (fold (step_cal env cid ex) es cal) i = Some bd
           \<and> (is_new ex e \<longrightarrow> i \<notin> fst ` set cal)
           \<and> (\<forall>g. map_of ex (event_id e) = Some g \<longrightarrow> i = g_id g)"
  using assms(1,2,3)
proof (induction es arbitrary: cal)
  case Nil
  then show ?case by simp
next
  case (Cons a es)
  let ?cal = "step_cal env cid ex a cal"
  have p: "entries_present ex ?cal"
    by (rule step_cal_present [OF Cons.prems(1)])
  have mono: "fst ` set cal \<subseteq> fst ` set ?cal"
    by (rule step_cal_keys_mono [OF Cons.prems(1)])
  show ?case
  proof (cases "e = a")
    case True
    let ?i = "case map_of ex (event_id e) of None \<Rightarrow> fresh_id cal | Some g \<Rightarrow> g_id g"
    have w: "map_of ?cal ?i = Some bd"
      unfolding True [symmetric] by (rule step_cal_written [OF assms(4,5)])
    then have k: "?i \<in> fst ` set ?cal"
      by (auto simp: keys_dom)
    have fresh: "is_new ex e \<longrightarrow> ?i \<notin> fst ` set cal"
      using fresh_id_fresh [of cal] by (simp add: is_new_def)
    have old: "\<forall>g. map_of ex (event_id e) = Some g \<longrightarrow> ?i = g_id g"
      by simp
    have rest: "\<forall>e' \<in> set es. \<forall>g'. map_of ex (event_id e') = Some g' \<longrightarrow> g_id g' \<noteq> ?i"
    proof (intro ballI allI impI)
      fix e' g' assume e': "e' \<in> set es" and g': "map_of ex (event_id e') = Some g'"
      have "event_id e' \<in> event_id ` set es"
        using e' by (rule imageI)
      moreover have "event_id a \<notin> event_id ` set es"
        using Cons.prems(2) by simp
      ultimately have ne: "event_id e' \<noteq> event_id e"
        unfolding True by metis
      have here: "g_id g' \<in> fst ` set cal"
        by (rule entry_key_present [OF Cons.prems(1) g'])
      show "g_id g' \<noteq> ?i"
      proof (cases "map_of ex (event_id e)")
        case None
        then show ?thesis
          using in_keys_not_fresh [OF here] by simp
      next
        case (Some g)
        have "g_id g' \<noteq> g_id g"
        proof
          assume "g_id g' = g_id g"
          from entry_key_inj [OF Cons.prems(1) g' Some this] ne show False
            by simp
        qed
        then show ?thesis
          by (simp add: Some)
      qed
    qed
    have "map_of (fold (step_cal env cid ex) es ?cal) ?i = map_of ?cal ?i"
      by (rule fold_step_keep [OF p k rest])
    with w have "map_of (fold (step_cal env cid ex) (a # es) cal) ?i = Some bd"
      by (simp add: True)
    with fresh old show ?thesis
      by blast
  next
    case False
    with Cons.prems(3) have e: "e \<in> set es"
      by simp
    have d: "distinct (map event_id es)"
      using Cons.prems(2) by simp
    from Cons.IH [OF p d e] obtain i where
      i: "map_of (fold (step_cal env cid ex) es ?cal) i = Some bd"
      and n: "is_new ex e \<longrightarrow> i \<notin> fst ` set ?cal"
      and o: "\<forall>g. map_of ex (event_id e) = Some g \<longrightarrow> i = g_id g"
      by blast
    from n mono have "is_new ex e \<longrightarrow> i \<notin> fst ` set cal"
      by blast
    with i o show ?thesis
      by auto
  qed
qed

lemma fold_delete_map_of:
  "map_of (fold (delete_cal env cid) ps cal) i
     = (if \<exists>p \<in> set ps. \<not> delete_refused env cid p \<and> g_id (snd p) = i then None
        else map_of cal i)"
proof (induction ps arbitrary: cal)
  case Nil
  show ?case by simp
next
  case (Cons p ps)
  have one: "map_of (delete_cal env cid p cal) i
      = (if \<not> delete_refused env cid p \<and> g_id (snd p) = i then None else map_of cal i)"
    by (simp add: delete_cal_def delete_conv')
  show ?case
    by (auto simp: Cons.IH one)
qed



lemma sync_events_None_valid:
  "sync_events env cid ex es s = (None, s') \<Longrightarrow> list_all valid_dates es"
proof (induction es arbitrary: s)
  case Nil
  show ?case by simp
next
  case (Cons e es)
  obtain r s1 where step: "sync_event env cid ex e s = (r, s1)"
    by (cases "sync_event env cid ex e s")
  from Cons.prems step have r: "r = None" and rest: "sync_events env cid ex es s1 = (None, s')"
    by (auto split: option.splits)
  have "valid_dates e"
  proof (rule ccontr)
    assume "\<not> valid_dates e"
    then obtain err where "toGoogleEvent e = Inl err"
      by (auto simp: valid_dates_def split: sum.splits)
    then have "fst (sync_event env cid ex e s) = Some err"
      by (simp add: sync_event_def split: prod.splits)
    with step r show False
      by simp
  qed
  with Cons.IH [OF rest] show ?case
    by simp
qed

section \<open>Reconciliation: one pass\<close>

text \<open>A pass with a token, a calendar id, no list request refused and valid dates: the
  calendar it leaves, the counts and the error list.\<close>

lemma stale_keys_present:
  assumes "entries_present ex cal"
  shows "\<forall>p \<in> set (stale P ex). g_id (snd p) \<in> fst ` set cal"
proof
  fix p assume "p \<in> set (stale P ex)"
  then have "p \<in> set ex"
    by (simp add: stale_def)
  with assms have "tag_of cal (g_id (snd p)) = Some (fst p)"
    by (simp add: entries_present_def)
  then show "g_id (snd p) \<in> fst ` set cal"
    by (rule tag_of_present)
qed

lemma sync_pass:
  assumes auth: "auth_ok env"
    and list: "\<And>tok. faults env (list_request cid tok) = None"
    and cid: "calendarId (googleCalendar settings) = Some cid" "cid \<noteq> []"
    and dist: "distinct (map fst cal)"
    and valid: "list_all valid_dates events"
  shows "\<exists>r. syncToGoogleCalendar env settings cal events
        = (Inr r, fold (delete_cal env cid) (stale (event_id ` set events) (existing_of env cal))
                    (fold (step_cal env cid (existing_of env cal)) events cal))
      \<and> created r = length (filter (\<lambda>e. is_new (existing_of env cal) e
            \<and> accepted env cid (existing_of env cal) e) events)
      \<and> updated r = length (filter (\<lambda>e. \<not> is_new (existing_of env cal) e
            \<and> accepted env cid (existing_of env cal) e) events)
      \<and> deleted r = (if delete_reply env = None then 0
           else length (filter (\<lambda>p. \<not> delete_refused env cid p)
                  (stale (event_id ` set events) (existing_of env cal))))
      \<and> errors r = map (upsert_error env cid (existing_of env cal))
             (filter (\<lambda>e. \<not> accepted env cid (existing_of env cal) e) events)
           @ map (delete_error env cid)
               (filter (\<lambda>p. delete_refused env cid p \<or> delete_reply env = None)
                  (stale (event_id ` set events) (existing_of env cal)))"
proof -
  let ?ex = "existing_of env cal"
  let ?P = "event_id ` set events"
  let ?cal2 = "fold (step_cal env cid ?ex) events cal"
  have ls: "getExistingEvents env cal cid = (Inr ?ex, cal)"
    by (rule getExistingEvents_all [OF auth list])
  have present: "entries_present ?ex cal"
    by (rule existing_present [OF dist])
  from sync_events_forward [OF auth valid present, of cid empty_result "{}"]
  obtain res where
    run: "sync_events env cid ?ex events (cal, empty_result, {}) = (None, ?cal2, res, ?P)"
    and c: "created res = length (filter (\<lambda>e. is_new ?ex e \<and> accepted env cid ?ex e) events)"
    and u: "updated res = length (filter (\<lambda>e. \<not> is_new ?ex e \<and> accepted env cid ?ex e) events)"
    and d: "deleted res = 0"
    and er: "errors res = map (upsert_error env cid ?ex)
        (filter (\<lambda>e. \<not> accepted env cid ?ex e) events)"
    by (auto simp: empty_result_def)
  have present2: "entries_present ?ex ?cal2"
    by (rule fold_step_present [OF present])
  have here: "\<forall>p \<in> set (stale ?P ?ex). g_id (snd p) \<in> fst ` set ?cal2"
    by (rule stale_keys_present [OF present2])
  have gids: "distinct (map (\<lambda>p. g_id (snd p)) (stale ?P ?ex))"
    by (rule stale_gids_distinct [OF present2 existing_distinct])
  from delete_loop_forward [OF auth here gids, of cid res]
  obtain res' where
    del: "delete_loop env cid ?P ?ex (?cal2, res)
        = (fold (delete_cal env cid) (stale ?P ?ex) ?cal2, res')"
    and c': "created res' = created res" and u': "updated res' = updated res"
    and d': "deleted res' = deleted res
          + (if delete_reply env = None then 0
             else length (filter (\<lambda>p. \<not> delete_refused env cid p) (stale ?P ?ex)))"
    and er': "errors res' = errors res
          @ map (delete_error env cid)
              (filter (\<lambda>p. delete_refused env cid p \<or> delete_reply env = None) (stale ?P ?ex))"
    by blast
  have "syncToGoogleCalendar env settings cal events
      = (Inr res', fold (delete_cal env cid) (stale ?P ?ex) ?cal2)"
    by (simp add: syncToGoogleCalendar_def cid truthy_def ls run del)
  moreover have "created res' = length (filter (\<lambda>e. is_new ?ex e \<and> accepted env cid ?ex e) events)"
    using c c' by simp
  moreover have "updated res' = length (filter (\<lambda>e. \<not> is_new ?ex e \<and> accepted env cid ?ex e) events)"
    using u u' by simp
  moreover have "deleted res' = (if delete_reply env = None then 0
           else length (filter (\<lambda>p. \<not> delete_refused env cid p) (stale ?P ?ex)))"
    using d d' by simp
  moreover have "errors res' = map (upsert_error env cid ?ex)
             (filter (\<lambda>e. \<not> accepted env cid ?ex e) events)
           @ map (delete_error env cid)
               (filter (\<lambda>p. delete_refused env cid p \<or> delete_reply env = None) (stale ?P ?ex))"
    using er er' by simp
  ultimately show ?thesis
    by blast
qed

lemma sync_success_valid:
  assumes auth: "auth_ok env"
    and list: "\<And>tok. faults env (list_request cid tok) = None"
    and cid: "calendarId (googleCalendar settings) = Some cid" "cid \<noteq> []"
    and run: "syncToGoogleCalendar env settings cal events = (Inr r, cal')"
    and ok: "errors r = []"
  shows "list_all valid_dates events"
proof -
  let ?ex = "existing_of env cal"
  have ls: "getExistingEvents env cal cid = (Inr ?ex, cal)"
    by (rule getExistingEvents_all [OF auth list])
  obtain e cal2 res P where
    loop: "sync_events env cid ?ex events (cal, empty_result, {}) = (e, cal2, res, P)"
    by (cases "sync_events env cid ?ex events (cal, empty_result, {})") auto
  show ?thesis
  proof (cases e)
    case None
    with loop show ?thesis
      using sync_events_None_valid by blast
  next
    case (Some err)
    have "syncToGoogleCalendar env settings cal events
        = (Inr (res \<lparr> errors := errors res @ [message err] \<rparr>), cal2)"
      by (simp add: syncToGoogleCalendar_def cid truthy_def ls loop Some)
    with run have "r = res \<lparr> errors := errors res @ [message err] \<rparr>"
      by simp
    with ok show ?thesis
      by simp
  qed
qed

section \<open>Reconciliation: one failed update\<close>

lemma filter_eq_single:
  "distinct xs \<Longrightarrow> b \<in> set xs \<Longrightarrow> filter (\<lambda>e. e = b) xs = [b]"
proof (induction xs)
  case Nil
  then show ?case by simp
next
  case (Cons x xs)
  show ?case
  proof (cases "x = b")
    case True
    with Cons.prems(1) have "b \<notin> set xs"
      by simp
    then have "filter (\<lambda>e. e = b) xs = []"
      by (auto simp: filter_empty_conv)
    with True show ?thesis
      by simp
  next
    case False
    with Cons show ?thesis
      by simp
  qed
qed

lemma written_survives_deletes:
  assumes present: "entries_present ex cal"
    and e: "e \<in> set es"
    and i: "map_of cal2 i = Some bd"
    and new: "is_new ex e \<longrightarrow> i \<notin> fst ` set cal"
    and old: "\<forall>g. map_of ex (event_id e) = Some g \<longrightarrow> i = g_id g"
  shows "map_of (fold (delete_cal env cid) (stale (event_id ` set es) ex) cal2) i = Some bd"
proof -
  have "\<not> (\<exists>p \<in> set (stale (event_id ` set es) ex).
      \<not> delete_refused env cid p \<and> g_id (snd p) = i)"
  proof
    assume "\<exists>p \<in> set (stale (event_id ` set es) ex).
      \<not> delete_refused env cid p \<and> g_id (snd p) = i"
    then obtain p where p: "p \<in> set ex" and out: "fst p \<notin> event_id ` set es"
      and same: "g_id (snd p) = i"
      by (auto simp: stale_def)
    from present p have "tag_of cal (g_id (snd p)) = Some (fst p)"
      by (simp add: entries_present_def)
    then have here: "i \<in> fst ` set cal"
      unfolding same by (rule tag_of_present)
    show False
    proof (cases "map_of ex (event_id e)")
      case None
      with new here show False
        by (simp add: is_new_def)
    next
      case (Some g)
      then have q: "(event_id e, g) \<in> set ex"
        by (rule map_of_SomeD)
      from old Some same have "g_id (snd p) = g_id (snd (event_id e, g))"
        by simp
      from entries_gid_inj [OF present p q this] have "fst p = event_id e"
        by simp
      with out e show False
        by simp
    qed
  qed
  then show ?thesis
    by (simp add: fold_delete_map_of i)
qed

text \<open>
  C3. The claim: when exactly one per-event request fails, the update of B, the pass
  still executes every other create, update and delete, appends exactly one entry of the
  form "<id>: <message>" for B to the error list, and returns normally. The code isolates
  the failure as the claim says, but the entry it appends is
  \<open>`Event ${event.id}: ${message}`\<close>, and \<open>`Delete ${epitechId}: ${message}`\<close> in the
  delete loop: the kind of the operation comes before the id. The amended property: for a
  service that refuses the update of the mirror of B and nothing else, and events with
  valid dates and distinct ids, the pass returns a result; every new event is counted
  as created, and every mirrored event other than B as updated; the error list starts
  with "Event <id of B>: <message of the refusal>", and its other entries are the deletes
  that Google Calendar answers with no content, which are not counted; afterwards the
  fields of every event other than B are on the calendar, and no mirror whose id is not
  among the events is.
\<close>

theorem sync_isolates_failed_update:
  assumes auth: "auth_ok env"
    and cid: "calendarId (googleCalendar settings) = Some cid" "cid \<noteq> []"
    and dist: "distinct (map fst cal)"
    and valid: "list_all valid_dates events"
    and ids: "distinct (map event_id events)"
    and b: "b \<in> set events"
    and gb: "map_of (existing_of env cal) (event_id b) = Some gb"
    and faults: "faults env = failing_update (g_id gb) f"
  shows "\<exists>r cal'. syncToGoogleCalendar env settings cal events = (Inr r, cal')
      \<and> created r = length (filter (is_new (existing_of env cal)) events)
      \<and> updated r = length (filter (\<lambda>e. \<not> is_new (existing_of env cal) e \<and> e \<noteq> b) events)
      \<and> deleted r = (if delete_reply env = None then 0
           else length (stale (event_id ` set events) (existing_of env cal)))
      \<and> errors r = (''Event '' @ event_id b @ '': '' @ message (refusal f))
           # (if delete_reply env = None
              then map (\<lambda>p. ''Delete '' @ fst p @ '': Unexpected end of JSON input'')
                     (stale (event_id ` set events) (existing_of env cal))
              else [])
      \<and> (\<forall>e \<in> set events. e \<noteq> b \<longrightarrow>
            (\<exists>i bd. toGoogleEvent e = Inr bd \<and> map_of cal' i = Some bd))
      \<and> (\<forall>p \<in> set (existing_of env cal). fst p \<notin> event_id ` set events \<longrightarrow>
            g_id (snd p) \<notin> fst ` set cal')"
proof -
  let ?ex = "existing_of env cal"
  let ?P = "event_id ` set events"
  let ?cal2 = "fold (step_cal env cid ?ex) events cal"
  let ?cal3 = "fold (delete_cal env cid) (stale ?P ?ex) ?cal2"
  have list: "\<And>tok. faults env (list_request cid tok) = None"
    by (simp add: faults failing_update_def list_request_def)
  have present: "entries_present ?ex cal"
    by (rule existing_present [OF dist])
  have inj: "inj_on event_id (set events)" and dist_events: "distinct events"
    using ids by (simp_all add: distinct_map)
  have body: "\<exists>bd. toGoogleEvent e = Inr bd" if "e \<in> set events" for e
  proof -
    from valid that have "valid_dates e"
      by (simp add: list_all_iff)
    then show ?thesis
      by (auto simp: valid_dates_def split: sum.splits)
  qed
  have acc: "accepted env cid ?ex e \<longleftrightarrow> e \<noteq> b" if e: "e \<in> set events" for e
  proof -
    from body [OF e] obtain bd where bd: "toGoogleEvent e = Inr bd"
      by blast
    show ?thesis
    proof (cases "map_of ?ex (event_id e)")
      case None
      with gb have "e \<noteq> b"
        by auto
      moreover have "accepted env cid ?ex e"
        by (simp add: accepted_def bd upsert_request_def None faults failing_update_def)
      ultimately show ?thesis
        by simp
    next
      case (Some g)
      have "g_id g = g_id gb \<longleftrightarrow> e = b"
      proof
        assume "g_id g = g_id gb"
        from entry_key_inj [OF present Some gb this] have "event_id e = event_id b" .
        with inj e b show "e = b"
          by (simp add: inj_on_def)
      next
        assume "e = b"
        with Some gb show "g_id g = g_id gb"
          by simp
      qed
      then show ?thesis
        by (simp add: accepted_def bd upsert_request_def Some faults failing_update_def)
    qed
  qed
  have old_b: "\<not> is_new ?ex b"
    using gb by (simp add: is_new_def)
  have nodel: "\<not> delete_refused env cid p" for p
    by (simp add: delete_refused_def faults failing_update_def)
  have f_new: "filter (\<lambda>e. is_new ?ex e \<and> accepted env cid ?ex e) events
      = filter (is_new ?ex) events"
    using acc old_b by (intro filter_cong) auto
  have f_old: "filter (\<lambda>e. \<not> is_new ?ex e \<and> accepted env cid ?ex e) events
      = filter (\<lambda>e. \<not> is_new ?ex e \<and> e \<noteq> b) events"
    using acc by (intro filter_cong) auto
  have "filter (\<lambda>e. \<not> accepted env cid ?ex e) events = filter (\<lambda>e. e = b) events"
    using acc by (intro filter_cong) auto
  then have f_rej: "filter (\<lambda>e. \<not> accepted env cid ?ex e) events = [b]"
    by (simp add: filter_eq_single [OF dist_events b])
  from body [OF b] obtain bb where bb: "toGoogleEvent b = Inr bb"
    by blast
  have err_b: "upsert_error env cid ?ex b
      = ''Event '' @ event_id b @ '': '' @ message (refusal f)"
    by (simp add: upsert_error_def bb upsert_request_def gb faults failing_update_def)
  have err_d: "delete_error env cid p = ''Delete '' @ fst p @ '': Unexpected end of JSON input''"
    for p
    by (simp add: delete_error_def faults failing_update_def)
  from sync_pass [OF auth list cid dist valid]
  obtain r where run: "syncToGoogleCalendar env settings cal events = (Inr r, ?cal3)"
    and c: "created r = length (filter (\<lambda>e. is_new ?ex e \<and> accepted env cid ?ex e) events)"
    and u: "updated r = length (filter (\<lambda>e. \<not> is_new ?ex e \<and> accepted env cid ?ex e) events)"
    and d: "deleted r = (if delete_reply env = None then 0
           else length (filter (\<lambda>p. \<not> delete_refused env cid p) (stale ?P ?ex)))"
    and er: "errors r = map (upsert_error env cid ?ex)
             (filter (\<lambda>e. \<not> accepted env cid ?ex e) events)
           @ map (delete_error env cid)
               (filter (\<lambda>p. delete_refused env cid p \<or> delete_reply env = None) (stale ?P ?ex))"
    by blast
  have c': "created r = length (filter (is_new ?ex) events)"
    using c by (simp only: f_new)
  have u': "updated r = length (filter (\<lambda>e. \<not> is_new ?ex e \<and> e \<noteq> b) events)"
    using u by (simp only: f_old)
  have d': "deleted r = (if delete_reply env = None then 0 else length (stale ?P ?ex))"
    using d by (simp add: nodel)
  have er': "errors r = (''Event '' @ event_id b @ '': '' @ message (refusal f))
           # (if delete_reply env = None
              then map (\<lambda>p. ''Delete '' @ fst p @ '': Unexpected end of JSON input'')
                     (stale ?P ?ex)
              else [])"
    unfolding er f_rej by (simp add: err_b err_d nodel)
  have written: "\<forall>e \<in> set events. e \<noteq> b \<longrightarrow>
      (\<exists>i bd. toGoogleEvent e = Inr bd \<and> map_of ?cal3 i = Some bd)"
  proof (intro ballI impI)
    fix e assume e: "e \<in> set events" and ne: "e \<noteq> b"
    from body [OF e] obtain bd where bd: "toGoogleEvent e = Inr bd"
      by blast
    have a: "accepted env cid ?ex e"
      using acc [OF e] ne by simp
    from fold_step_body [OF present ids e a bd] obtain i where
      i: "map_of ?cal2 i = Some bd"
      and n: "is_new ?ex e \<longrightarrow> i \<notin> fst ` set cal"
      and o: "\<forall>g. map_of ?ex (event_id e) = Some g \<longrightarrow> i = g_id g"
      by blast
    have "map_of ?cal3 i = Some bd"
      by (rule written_survives_deletes [OF present e i n o])
    with bd show "\<exists>i bd. toGoogleEvent e = Inr bd \<and> map_of ?cal3 i = Some bd"
      by blast
  qed
  have gone: "\<forall>p \<in> set ?ex. fst p \<notin> ?P \<longrightarrow> g_id (snd p) \<notin> fst ` set ?cal3"
  proof (intro ballI impI)
    fix p assume "p \<in> set ?ex" and "fst p \<notin> ?P"
    then have "p \<in> set (stale ?P ?ex)"
      by (simp add: stale_def)
    then have "map_of ?cal3 (g_id (snd p)) = None"
      using nodel by (auto simp: fold_delete_map_of)
    then show "g_id (snd p) \<notin> fst ` set ?cal3"
      by (simp add: keys_dom domIff)
  qed
  from run c' u' d' er' written gone show ?thesis
    by blast
qed

text \<open>The scenario of the specification, with the update of B refused with status 500.\<close>

lemma existing_of_calendar_ABC:
  assumes "list_match env = By_prefix"
  shows "existing_of env calendar_ABC
     = [(id_A, \<lparr> g_id = ''g1'', g_body = mirrored id_A \<rparr>),
        (id_B, \<lparr> g_id = ''g2'', g_body = mirrored id_B \<rparr>),
        (id_C, \<lparr> g_id = ''g3'', g_body = mirrored id_C \<rparr>)]"
proof -
  have "add_page (matching By_prefix (''epitechId'', ''epitech-'') calendar_ABC) []
     = [(id_A, \<lparr> g_id = ''g1'', g_body = mirrored id_A \<rparr>),
        (id_B, \<lparr> g_id = ''g2'', g_body = mirrored id_B \<rparr>),
        (id_C, \<lparr> g_id = ''g3'', g_body = mirrored id_C \<rparr>)]"
    by code_simp
  then show ?thesis
    by (simp add: existing_of_def listed_def assms)
qed

lemma canonical_valid_dates: "valid_dates (canonical i)"
proof -
  have "startDate (canonical i) = MkDate (Some 1740819600000)"
    and "endDate (canonical i) = MkDate (Some 1740823200000)"
    by (simp_all add: canonical_def sample_event_def)
  moreover have "toISOString (MkDate (Some 1740819600000)) = Inr ''2025-03-01T09:00:00.000Z''"
    by code_simp
  moreover have "toISOString (MkDate (Some 1740823200000)) = Inr ''2025-03-01T10:00:00.000Z''"
    by code_simp
  ultimately show ?thesis
    by (auto simp: valid_dates_def toGoogleEvent_def)
qed

lemma canonical_id: "event_id (canonical i) = i"
  by (simp add: canonical_def)

lemma canonical_inj: "canonical i = canonical j \<longleftrightarrow> i = j"
  by (metis canonical_id)

text \<open>The entry for B is not "<id>: <message>": it starts with the word Event. The
  second entry is the delete of A, which Google Calendar answers with no content.\<close>

theorem sync_error_entry_counterexample:
  "\<exists>r cal'. syncToGoogleCalendar google_B_fails connected_settings calendar_ABC
       [canonical id_B, canonical id_C, canonical id_D] = (Inr r, cal')
     \<and> created r = 1 \<and> updated r = 1 \<and> deleted r = 0
     \<and> errors r = [''Event epitech-acti-2-event-2: Google API error: 500 - Backend Error'',
                    ''Delete epitech-acti-1-event-1: Unexpected end of JSON input'']
     \<and> id_B @ '': Google API error: 500 - Backend Error'' \<notin> set (errors r)"
proof -
  have "map_prod id mirror_tags
     (syncToGoogleCalendar google_B_fails connected_settings calendar_ABC
        [canonical id_B, canonical id_C, canonical id_D])
   = (Inr \<lparr> created = 1, updated = 1, deleted = 0,
            errors = [''Event epitech-acti-2-event-2: Google API error: 500 - Backend Error'',
                      ''Delete epitech-acti-1-event-1: Unexpected end of JSON input''] \<rparr>,
      [(''g2'', Some id_B), (''g3'', Some id_C), (''ggg'', Some id_D)])"
    by code_simp
  then obtain cal' where "syncToGoogleCalendar google_B_fails connected_settings calendar_ABC
       [canonical id_B, canonical id_C, canonical id_D]
     = (Inr \<lparr> created = 1, updated = 1, deleted = 0,
            errors = [''Event epitech-acti-2-event-2: Google API error: 500 - Backend Error'',
                      ''Delete epitech-acti-1-event-1: Unexpected end of JSON input''] \<rparr>, cal')"
    by (cases "syncToGoogleCalendar google_B_fails connected_settings calendar_ABC
       [canonical id_B, canonical id_C, canonical id_D]") auto
  then show ?thesis
    by (simp add: id_B_def)
qed

theorem sync_isolates_failed_update_witness:
  "auth_ok google_B_fails
   \<and> list_all valid_dates [canonical id_B, canonical id_C, canonical id_D]
   \<and> map_of (existing_of google_B_fails calendar_ABC) (event_id (canonical id_B))
       = Some \<lparr> g_id = ''g2'', g_body = mirrored id_B \<rparr>
   \<and> faults google_B_fails = failing_update ''g2'' (500, ''Backend Error'')
   \<and> (\<exists>r cal'. syncToGoogleCalendar google_B_fails connected_settings calendar_ABC
          [canonical id_B, canonical id_C, canonical id_D] = (Inr r, cal')
        \<and> created r = 1 \<and> updated r = 1 \<and> deleted r = 0
        \<and> errors r = [''Event epitech-acti-2-event-2: Google API error: 500 - Backend Error'',
                       ''Delete epitech-acti-1-event-1: Unexpected end of JSON input'']
        \<and> ''g1'' \<notin> fst ` set cal')"
proof -
  let ?events = "[canonical id_B, canonical id_C, canonical id_D]"
  let ?gb = "\<lparr> g_id = ''g2'', g_body = mirrored id_B \<rparr>"
  have ne: "id_A \<noteq> id_B" "id_A \<noteq> id_C" "id_A \<noteq> id_D" "id_B \<noteq> id_C" "id_B \<noteq> id_D"
    "id_C \<noteq> id_D"
    by (simp_all add: id_A_def id_B_def id_C_def id_D_def)
  have prefix: "list_match google_B_fails = By_prefix"
    by (simp add: google_B_fails_def google_def)
  note existing = existing_of_calendar_ABC [OF prefix]
  have auth: "auth_ok google_B_fails"
    by (simp add: auth_ok_def google_B_fails_def google_def truthy_def)
  have cid: "calendarId (googleCalendar connected_settings) = Some ''calendar-1''"
    "''calendar-1'' \<noteq> []"
    by (simp_all add: connected_settings_def)
  have dist: "distinct (map fst calendar_ABC)"
    by (simp add: calendar_ABC_def)
  have valid: "list_all valid_dates ?events"
    by (simp add: canonical_valid_dates)
  have ids: "distinct (map event_id ?events)"
    using ne by (simp add: canonical_id)
  have b: "canonical id_B \<in> set ?events"
    by simp
  have gb: "map_of (existing_of google_B_fails calendar_ABC) (event_id (canonical id_B)) = Some ?gb"
    using ne by (simp add: existing canonical_id)
  have faults: "faults google_B_fails = failing_update (g_id ?gb) (500, ''Backend Error'')"
    by (simp add: google_B_fails_def)
  have reply: "delete_reply google_B_fails = None"
    by (simp add: google_B_fails_def google_def)
  have st: "stale (event_id ` set ?events) (existing_of google_B_fails calendar_ABC)
      = [(id_A, \<lparr> g_id = ''g1'', g_body = mirrored id_A \<rparr>)]"
    using ne by (simp add: stale_def existing canonical_id)
  have new: "filter (is_new (existing_of google_B_fails calendar_ABC)) ?events = [canonical id_D]"
    using ne by (simp add: is_new_def existing canonical_id)
  have old: "filter (\<lambda>e. \<not> is_new (existing_of google_B_fails calendar_ABC) e \<and> e \<noteq> canonical id_B) ?events
      = [canonical id_C]"
    using ne by (simp add: is_new_def existing canonical_id canonical_inj)
  have msg: "''Event '' @ event_id (canonical id_B) @ '': ''
        @ message (refusal (500, ''Backend Error''))
      = ''Event epitech-acti-2-event-2: Google API error: 500 - Backend Error''"
    by code_simp
  from sync_isolates_failed_update [OF auth cid dist valid ids b gb faults]
  obtain r cal' where "syncToGoogleCalendar google_B_fails connected_settings calendar_ABC
          ?events = (Inr r, cal')"
    and "created r = 1" and "updated r = 1" and "deleted r = 0"
    and "errors r = [''Event epitech-acti-2-event-2: Google API error: 500 - Backend Error'',
                     ''Delete '' @ id_A @ '': Unexpected end of JSON input'']"
    and "\<forall>p \<in> set (existing_of google_B_fails calendar_ABC). fst p \<notin> event_id ` set ?events \<longrightarrow>
            g_id (snd p) \<notin> fst ` set cal'"
    unfolding st new old msg reply by auto
  moreover from this have "''g1'' \<notin> fst ` set cal'"
    using ne by (simp add: existing canonical_id)
  ultimately show ?thesis
    using auth valid gb faults by (simp add: id_A_def)
qed

section \<open>Reconciliation: a second pass\<close>






text \<open>The condition on the calendar cannot be dropped. The \<open>Map\<close> keeps one mirror per id,
  so with two mirrors of A and no A among the events, each pass deletes one of them; a
  service that answers the delete with a body makes the count show it.\<close>

lemma second_pass_duplicate_mirrors:
  "syncToGoogleCalendar google_with_body connected_settings calendar_twins []
     = (Inr \<lparr> created = 0, updated = 0, deleted = 1, errors = [] \<rparr>, [(''g1'', mirrored id_A)])
   \<and> syncToGoogleCalendar google_with_body connected_settings [(''g1'', mirrored id_A)] []
     = (Inr \<lparr> created = 0, updated = 0, deleted = 1, errors = [] \<rparr>, [])"
  by code_simp

text \<open>Nor can the condition on the service. If it reads the constraint
  \<open>epitechId=epitech-\<close> as an equality, no mirror matches it, the \<open>Map\<close> is empty, and
  every pass creates every event again.\<close>

lemma second_pass_by_value:
  "map_prod id mirror_tags
     (syncToGoogleCalendar google_by_value connected_settings [] [canonical id_B])
     = (Inr \<lparr> created = 1, updated = 0, deleted = 0, errors = [] \<rparr>, [(''g'', Some id_B)])
   \<and> map_prod id mirror_tags
     (syncToGoogleCalendar google_by_value connected_settings
        (snd (syncToGoogleCalendar google_by_value connected_settings [] [canonical id_B]))
        [canonical id_B])
     = (Inr \<lparr> created = 1, updated = 0, deleted = 0, errors = [] \<rparr>,
        [(''g'', Some id_B), (''gg'', Some id_B)])"
  by code_simp

end
